theory Spec2Isabelle
  imports Complex_Main
begin

section \<open>Arrays and exceptions\<close>

text \<open>
  The two notebooks work on numpy arrays of float64. Array entries are modelled as
  real numbers: finite float64 arithmetic is idealised to exact arithmetic. A
  one-dimensional array is a list, a two-dimensional array is the list of its rows.
  Arrays with an axis of length zero are not represented (the empty list of rows has
  no column count). The binary operators raise \<open>ValueError\<close> on operands whose shapes
  do not agree; numpy's broadcasting of axes of length one is not modelled, the
  statements below are about operands of the configured dimensions.
\<close>

datatype error = ValueError | LinAlgError | IndexError

type_synonym vec = "real list"
type_synonym mat = "real list list"

definition rbind :: "error + 'a \<Rightarrow> ('a \<Rightarrow> error + 'b) \<Rightarrow> error + 'b" where
  "rbind m f = (case m of Inl e \<Rightarrow> Inl e | Inr x \<Rightarrow> f x)"

definition vec :: "nat \<Rightarrow> vec \<Rightarrow> bool" where
  "vec n v = (length v = n)"

definition mat :: "nat \<Rightarrow> nat \<Rightarrow> mat \<Rightarrow> bool" where
  "mat r c A = (0 < r \<and> 0 < c \<and> length A = r \<and> list_all (\<lambda>row. length row = c) A)"

definition ncols :: "mat \<Rightarrow> nat" where
  "ncols A = (case A of [] \<Rightarrow> 0 | row # _ \<Rightarrow> length row)"

definition col :: "mat \<Rightarrow> nat \<Rightarrow> vec" where
  "col A j = map (\<lambda>row. row ! j) A"

definition dot :: "vec \<Rightarrow> vec \<Rightarrow> real" where
  "dot u v = sum_list (map2 (*) u v)"

text \<open>\<open>A.T\<close>\<close>

definition T :: "mat \<Rightarrow> mat" where
  "T A = map (col A) [0..<ncols A]"

definition vec_add :: "vec \<Rightarrow> vec \<Rightarrow> vec" where
  "vec_add u v = map2 (+) u v"

definition vec_sub :: "vec \<Rightarrow> vec \<Rightarrow> vec" where
  "vec_sub u v = map2 (-) u v"

definition mat_add :: "mat \<Rightarrow> mat \<Rightarrow> mat" where
  "mat_add A B = map2 vec_add A B"

definition mat_sub :: "mat \<Rightarrow> mat \<Rightarrow> mat" where
  "mat_sub A B = map2 vec_sub A B"

definition mat_vec :: "mat \<Rightarrow> vec \<Rightarrow> vec" where
  "mat_vec A v = map (\<lambda>row. dot row v) A"

definition mat_mul :: "mat \<Rightarrow> mat \<Rightarrow> mat" where
  "mat_mul A B = map (\<lambda>row. map (\<lambda>j. dot row (col B j)) [0..<ncols B]) A"

text \<open>\<open>u + v\<close> and \<open>u - v\<close> on one-dimensional arrays.\<close>

definition vadd :: "vec \<Rightarrow> vec \<Rightarrow> error + vec" where
  "vadd u v = (if length u = length v then Inr (vec_add u v) else Inl ValueError)"

definition vsub :: "vec \<Rightarrow> vec \<Rightarrow> error + vec" where
  "vsub u v = (if length u = length v then Inr (vec_sub u v) else Inl ValueError)"

text \<open>\<open>A + B\<close> and \<open>A - B\<close> on two-dimensional arrays.\<close>

definition madd :: "mat \<Rightarrow> mat \<Rightarrow> error + mat" where
  "madd A B =
     (if length A = length B \<and> ncols A = ncols B then Inr (mat_add A B) else Inl ValueError)"

definition msub :: "mat \<Rightarrow> mat \<Rightarrow> error + mat" where
  "msub A B =
     (if length A = length B \<and> ncols A = ncols B then Inr (mat_sub A B) else Inl ValueError)"

text \<open>\<open>A @ v\<close> (matrix by one-dimensional array) and \<open>A @ B\<close>.\<close>

definition matvec :: "mat \<Rightarrow> vec \<Rightarrow> error + vec" where
  "matvec A v = (if ncols A = length v then Inr (mat_vec A v) else Inl ValueError)"

definition matmul :: "mat \<Rightarrow> mat \<Rightarrow> error + mat" where
  "matmul A B = (if ncols A = length B then Inr (mat_mul A B) else Inl ValueError)"

section \<open>Kalman filter notebook\<close>

text \<open>
  \<^verbatim>\<open>
  def predict(A, B, Q, mu_t, u_t, Sigma_t):
      predicted_mu = A @ mu_t + B @ u_t
      predicted_Sigma = A @ Sigma_t @ A.T + Q
      return predicted_mu, predicted_Sigma
  \<close>
\<close>

definition predict :: "mat \<Rightarrow> mat \<Rightarrow> mat \<Rightarrow> vec \<Rightarrow> vec \<Rightarrow> mat \<Rightarrow> error + (vec \<times> mat)" where
  "predict A B Q mu_t u_t Sigma_t =
     rbind (matvec A mu_t) (\<lambda>A_mu.
     rbind (matvec B u_t) (\<lambda>B_u.
     rbind (vadd A_mu B_u) (\<lambda>predicted_mu.
     rbind (matmul A Sigma_t) (\<lambda>A_Sigma.
     rbind (matmul A_Sigma (T A)) (\<lambda>A_Sigma_At.
     rbind (madd A_Sigma_At Q) (\<lambda>predicted_Sigma.
     Inr (predicted_mu, predicted_Sigma)))))))"

text \<open>
  \<^verbatim>\<open>
  def update(H, R, z, predicted_mu, predicted_Sigma):
      residual_mean = z - H @ predicted_mu
      residual_covariance = H @ predicted_Sigma @ H.T + R
      kalman_gain = predicted_Sigma @ H.T @ np.linalg.inv(residual_covariance)
      updated_mu = predicted_mu + kalman_gain @ residual_mean
      updated_Sigma = predicted_Sigma - kalman_gain @ H @ predicted_Sigma
      return updated_mu, updated_Sigma
  \<close>
  \<open>np.linalg.inv\<close> is a library routine; it is the parameter \<open>np_inv\<close>. It returns an
  array or raises. The function has no handler, so whatever \<open>np_inv\<close> raises reaches the
  caller of \<open>update\<close>.
\<close>

definition update ::
  "(mat \<Rightarrow> error + mat) \<Rightarrow> mat \<Rightarrow> mat \<Rightarrow> vec \<Rightarrow> vec \<Rightarrow> mat \<Rightarrow> error + (vec \<times> mat)" where
  "update np_inv H R z predicted_mu predicted_Sigma =
     rbind (matvec H predicted_mu) (\<lambda>H_mu.
     rbind (vsub z H_mu) (\<lambda>residual_mean.
     rbind (matmul H predicted_Sigma) (\<lambda>H_Sigma.
     rbind (matmul H_Sigma (T H)) (\<lambda>H_Sigma_Ht.
     rbind (madd H_Sigma_Ht R) (\<lambda>residual_covariance.
     rbind (matmul predicted_Sigma (T H)) (\<lambda>Sigma_Ht.
     rbind (np_inv residual_covariance) (\<lambda>inv_residual_covariance.
     rbind (matmul Sigma_Ht inv_residual_covariance) (\<lambda>kalman_gain.
     rbind (matvec kalman_gain residual_mean) (\<lambda>K_residual.
     rbind (vadd predicted_mu K_residual) (\<lambda>updated_mu.
     rbind (matmul kalman_gain H) (\<lambda>K_H.
     rbind (matmul K_H predicted_Sigma) (\<lambda>K_H_Sigma.
     rbind (msub predicted_Sigma K_H_Sigma) (\<lambda>updated_Sigma.
     Inr (updated_mu, updated_Sigma))))))))))))))"

subsection \<open>Vocabulary of the statements\<close>

definition identity :: "nat \<Rightarrow> mat" where
  "identity n = map (\<lambda>i. map (\<lambda>j. if i = j then 1 else 0) [0..<n]) [0..<n]"

definition zero_mat :: "nat \<Rightarrow> nat \<Rightarrow> mat" where
  "zero_mat r c = replicate r (replicate c 0)"

definition unit :: "nat \<Rightarrow> nat \<Rightarrow> vec" where
  "unit n i = map (\<lambda>k. if k = i then 1 else 0) [0..<n]"

definition inverse_of :: "nat \<Rightarrow> mat \<Rightarrow> mat \<Rightarrow> bool" where
  "inverse_of n S Si = (mat n n Si \<and> mat_mul S Si = identity n \<and> mat_mul Si S = identity n)"

definition invertible :: "nat \<Rightarrow> mat \<Rightarrow> bool" where
  "invertible n S = (\<exists>Si. inverse_of n S Si)"

text \<open>
  What the statements about invertible matrices assume of \<open>np.linalg.inv\<close>, in exact
  arithmetic: on an invertible square matrix it returns the inverse. Nothing is
  assumed about what it does on a singular matrix.
\<close>

definition inv_contract :: "nat \<Rightarrow> (mat \<Rightarrow> error + mat) \<Rightarrow> bool" where
  "inv_contract n np_inv =
     (\<forall>S. mat n n S \<longrightarrow> invertible n S \<longrightarrow> (\<exists>Si. np_inv S = Inr Si \<and> inverse_of n S Si))"

text \<open>
  The closed-form inverse of a 2x2 matrix, an instance of \<open>inv_contract 2\<close>. It raises
  \<open>LinAlgError\<close> exactly on the singular matrices.
\<close>

definition inv2 :: "mat \<Rightarrow> error + mat" where
  "inv2 S =
     (case S of
        [[a, b], [c, d]] \<Rightarrow>
          (if a * d - b * c = 0 then Inl LinAlgError
           else Inr [[d / (a * d - b * c), - b / (a * d - b * c)],
                     [- c / (a * d - b * c), a / (a * d - b * c)]])
      | _ \<Rightarrow> Inl LinAlgError)"

text \<open>
  Whether \<open>np.linalg.inv\<close> raises on a singular matrix is decided in floating point.
  The routine factorises the matrix (LAPACK \<open>getrf\<close>: LU with partial pivoting) and
  raises \<open>LinAlgError\<close> only when a computed pivot is exactly zero. \<open>fl64\<close> rounds a real
  to the nearest number with a 53-bit significand (the exponent range is not
  bounded, a tie is rounded up). \<open>inv2_lu\<close> is the 2x2 case: the rows are ordered by
  the larger first entry, the multiplier is the product of the smaller entry with
  the rounded reciprocal of the pivot, and the second pivot is the rounded Schur
  complement. Only the factorisation is rounded; when no pivot is zero, the result
  is the exact inverse of the matrix that the computed factors represent.
\<close>

definition fl64 :: "real \<Rightarrow> real" where
  "fl64 x =
     (if x = 0 then 0
      else real_of_int (round (x / 2 powr (real_of_int \<lfloor>log 2 \<bar>x\<bar>\<rfloor> - 52))) *
           2 powr (real_of_int \<lfloor>log 2 \<bar>x\<bar>\<rfloor> - 52))"

definition lu_inverse :: "bool \<Rightarrow> real \<Rightarrow> real \<Rightarrow> real \<Rightarrow> real \<Rightarrow> error + mat" where
  "lu_inverse swapped p q r s =
     (if p = 0 then Inl LinAlgError
      else
        (let l = fl64 (r * fl64 (1 / p)); u = fl64 (s - fl64 (l * q))
         in if u = 0 then Inl LinAlgError
            else if swapped then inv2 [[l * p, l * q + u], [p, q]]
            else inv2 [[p, q], [l * p, l * q + u]]))"

definition inv2_lu :: "mat \<Rightarrow> error + mat" where
  "inv2_lu S =
     (case S of
        [[a, b], [c, d]] \<Rightarrow>
          (if \<bar>a\<bar> < \<bar>c\<bar> then lu_inverse True c d a b else lu_inverse False a b c d)
      | _ \<Rightarrow> Inl LinAlgError)"

definition quad :: "mat \<Rightarrow> vec \<Rightarrow> real" where
  "quad A v = dot v (mat_vec A v)"

definition psd :: "nat \<Rightarrow> mat \<Rightarrow> bool" where
  "psd n A = (mat n n A \<and> T A = A \<and> (\<forall>v. vec n v \<longrightarrow> 0 \<le> quad A v))"

definition loewner_le :: "nat \<Rightarrow> mat \<Rightarrow> mat \<Rightarrow> bool" where
  "loewner_le n A B = psd n (mat_sub B A)"

definition trace :: "mat \<Rightarrow> real" where
  "trace A = sum_list (map (\<lambda>i. A ! i ! i) [0..<length A])"

text \<open>The local values of \<open>update\<close>, by name.\<close>

definition residual_mean :: "mat \<Rightarrow> vec \<Rightarrow> vec \<Rightarrow> vec" where
  "residual_mean H z mu = vec_sub z (mat_vec H mu)"

definition residual_covariance :: "mat \<Rightarrow> mat \<Rightarrow> mat \<Rightarrow> mat" where
  "residual_covariance H R Sig = mat_add (mat_mul (mat_mul H Sig) (T H)) R"

definition kalman_gain :: "mat \<Rightarrow> mat \<Rightarrow> mat \<Rightarrow> mat" where
  "kalman_gain H Sig Si = mat_mul (mat_mul Sig (T H)) Si"

section \<open>Particle filter notebook\<close>

text \<open>
  A particle's state is an array of finite entries. Its weight is the result of a
  floating-point division, which yields an infinity or a NaN instead of raising:
  weights are finite reals extended by the IEEE special values. Zero is \<open>+0.0\<close>
  (the sign of a zero is not tracked), and finite arithmetic is exact.
\<close>

datatype npfloat = Fin real | PInf | NInf | NaN

fun fadd :: "npfloat \<Rightarrow> npfloat \<Rightarrow> npfloat" where
  "fadd NaN _ = NaN"
| "fadd _ NaN = NaN"
| "fadd PInf NInf = NaN"
| "fadd NInf PInf = NaN"
| "fadd PInf _ = PInf"
| "fadd _ PInf = PInf"
| "fadd NInf _ = NInf"
| "fadd _ NInf = NInf"
| "fadd (Fin a) (Fin b) = Fin (a + b)"

fun fdiv :: "npfloat \<Rightarrow> npfloat \<Rightarrow> npfloat" where
  "fdiv NaN _ = NaN"
| "fdiv _ NaN = NaN"
| "fdiv (Fin a) (Fin b) =
     (if b \<noteq> 0 then Fin (a / b) else if 0 < a then PInf else if a < 0 then NInf else NaN)"
| "fdiv (Fin a) _ = Fin 0"
| "fdiv PInf (Fin b) = (if 0 \<le> b then PInf else NInf)"
| "fdiv NInf (Fin b) = (if 0 \<le> b then NInf else PInf)"
| "fdiv _ _ = NaN"

definition is_finite :: "npfloat \<Rightarrow> bool" where
  "is_finite x = (case x of Fin _ \<Rightarrow> True | _ \<Rightarrow> False)"

text \<open>\<open>np.sum\<close> of a list of weights; the empty sum is \<open>0.0\<close>.\<close>

fun np_sum :: "npfloat list \<Rightarrow> npfloat" where
  "np_sum [] = Fin 0"
| "np_sum (w # ws) = fadd w (np_sum ws)"

text \<open>\<open>np.linalg.norm\<close> of a one-dimensional array.\<close>

definition norm2 :: "vec \<Rightarrow> real" where
  "norm2 v = sqrt (sum_list (map (\<lambda>x. x * x) v))"

record particle =
  state :: vec
  weight :: npfloat

text \<open>
  \<^verbatim>\<open>
  class Particle():
      def __init__(self, x, y, w):
          self.state = np.array([x, y])
          self.weight = w
  \<close>
\<close>

definition Particle :: "real \<Rightarrow> real \<Rightarrow> npfloat \<Rightarrow> particle" where
  "Particle x y w = \<lparr>state = [x, y], weight = w\<rparr>"

text \<open>
  Particles are objects, and the list \<open>particles\<close> holds references to them: the
  resampling loop stores one object in several slots. The store is the list of all
  objects created so far; a reference is a position in it, and a new object is
  appended.
\<close>

type_synonym ref = nat
type_synonym store = "particle list"

text \<open>
  \<^verbatim>\<open>
      def predict(self, u_t):
          motion_model_noise = np.random.normal(0, 0.01, size=self.state.shape)
          self.state = self.state + u_t + motion_model_noise
  \<close>
  The sample drawn by \<open>np.random.normal\<close> is the argument \<open>motion_model_noise\<close>.
\<close>

definition Particle_predict :: "store \<Rightarrow> ref \<Rightarrow> vec \<Rightarrow> vec \<Rightarrow> error + store" where
  "Particle_predict h self u_t motion_model_noise =
     rbind (vadd (state (h ! self)) u_t) (\<lambda>moved.
     rbind (vadd moved motion_model_noise) (\<lambda>new_state.
     Inr (h[self := (h ! self)\<lparr>state := new_state\<rparr>])))"

text \<open>
  \<^verbatim>\<open>
      def update(self, z_t):
          dist_from_state_to_z = np.linalg.norm(self.state - z_t)
          self.weight = 1. / dist_from_state_to_z
  \<close>
  The norm is a numpy float64, so the division follows numpy: it does not raise on a
  zero divisor.
\<close>

definition Particle_update :: "store \<Rightarrow> ref \<Rightarrow> vec \<Rightarrow> error + store" where
  "Particle_update h self z_t =
     rbind (vsub (state (h ! self)) z_t) (\<lambda>diff.
     (let dist_from_state_to_z = norm2 diff
      in Inr (h[self := (h ! self)\<lparr>weight := fdiv (Fin 1) (Fin dist_from_state_to_z)\<rparr>])))"

subsection \<open>The resampling step of the main loop\<close>

text \<open>
  \<^verbatim>\<open>
      alpha = 0.9
      weights = []
      for p in particles:
          weights.append(p.weight)
      normalized_weights = np.array(weights) / float(np.sum(weights))
      indexes = np.random.choice(num_particles,
                                 size=num_particles,
                                 p=normalized_weights)
      for j in range(int(num_particles * alpha)):
          p = particles[indexes[j]]
          particles[j] = p
      for j in range(num_particles - int(num_particles * alpha)):
          x = np.random.uniform(0,10)
          y = np.random.uniform(0,10)
          w = 0.
          particles[int(num_particles * alpha) + j] = Particle(x,y,w)
  \<close>
  The step is a function of the store, the list \<open>particles\<close>, the variables
  \<open>num_particles\<close> and \<open>alpha\<close>, and the outcomes of the random generator: \<open>draws\<close>,
  the indexes that \<open>np.random.choice\<close> returns once it has accepted \<open>p\<close>, and
  \<open>fresh j\<close>, the pair that the two calls of \<open>np.random.uniform\<close> return in
  iteration \<open>j\<close> of the second loop.
\<close>

definition weights_of :: "store \<Rightarrow> ref list \<Rightarrow> npfloat list" where
  "weights_of h particles = map (\<lambda>p. weight (h ! p)) particles"

definition normalize_weights :: "npfloat list \<Rightarrow> npfloat list" where
  "normalize_weights weights = map (\<lambda>w. fdiv w (np_sum weights)) weights"

text \<open>
  The checks of \<open>np.random.choice(a, size=n, p=p)\<close> for an integer \<open>a\<close> and a
  one-dimensional \<open>p\<close>, each raising \<open>ValueError\<close>: the population is empty while
  samples are asked for, \<open>p\<close> has not \<open>a\<close> entries, the sum of \<open>p\<close> is NaN, an entry is
  negative, the sum differs from 1 by more than \<open>sqrt(eps)\<close> = \<open>2^-26\<close>.
\<close>

definition is_negative :: "npfloat \<Rightarrow> bool" where
  "is_negative x = (case x of Fin a \<Rightarrow> a < 0 | NInf \<Rightarrow> True | _ \<Rightarrow> False)"

definition far_from_one :: "npfloat \<Rightarrow> bool" where
  "far_from_one s = (case s of Fin a \<Rightarrow> 1 / 2 ^ 26 < \<bar>a - 1\<bar> | _ \<Rightarrow> True)"

definition np_choice :: "nat \<Rightarrow> nat \<Rightarrow> npfloat list \<Rightarrow> nat list \<Rightarrow> error + nat list" where
  "np_choice a n p draws =
     (if a = 0 \<and> n \<noteq> 0 then Inl ValueError
      else if length p \<noteq> a then Inl ValueError
      else if np_sum p = NaN then Inl ValueError
      else if list_ex is_negative p then Inl ValueError
      else if far_from_one (np_sum p) then Inl ValueError
      else Inr draws)"

text \<open>What the generator can return for \<open>np.random.choice(a, size=n, p=p)\<close>.\<close>

definition valid_draws :: "nat \<Rightarrow> nat \<Rightarrow> nat list \<Rightarrow> bool" where
  "valid_draws a n draws = (length draws = n \<and> list_all (\<lambda>i. i < a) draws)"

text \<open>\<open>int(x)\<close> of a float truncates towards zero; \<open>range(n)\<close> is empty for \<open>n \<le> 0\<close>.\<close>

definition py_int :: "real \<Rightarrow> int" where
  "py_int x = (if 0 \<le> x then \<lfloor>x\<rfloor> else \<lceil>x\<rceil>)"

definition py_range :: "int \<Rightarrow> nat list" where
  "py_range n = [0..<nat n]"

text \<open>A list index: negative indexes count from the end, anything else out of range raises.\<close>

definition py_index :: "nat \<Rightarrow> int \<Rightarrow> nat option" where
  "py_index n i =
     (if 0 \<le> i \<and> i < int n then Some (nat i)
      else if - int n \<le> i \<and> i < 0 then Some (nat (int n + i))
      else None)"

text \<open>The first loop, run over the values \<open>js\<close> of \<open>j\<close>.\<close>

fun keep_loop :: "nat list \<Rightarrow> nat list \<Rightarrow> ref list \<Rightarrow> error + ref list" where
  "keep_loop [] indexes particles = Inr particles"
| "keep_loop (j # js) indexes particles =
     (if j < length indexes then
        (if indexes ! j < length particles then
           (let p = particles ! (indexes ! j)
            in if j < length particles then keep_loop js indexes (particles[j := p])
               else Inl IndexError)
         else Inl IndexError)
      else Inl IndexError)"

text \<open>The second loop; \<open>K\<close> is \<open>int(num_particles * alpha)\<close>.\<close>

fun inject_loop ::
  "nat list \<Rightarrow> int \<Rightarrow> (nat \<Rightarrow> real \<times> real) \<Rightarrow> store \<Rightarrow> ref list \<Rightarrow> error + (store \<times> ref list)" where
  "inject_loop [] K fresh h particles = Inr (h, particles)"
| "inject_loop (j # js) K fresh h particles =
     (let x = fst (fresh j); y = snd (fresh j); w = Fin 0;
          new = length h; h' = h @ [Particle x y w]
      in case py_index (length particles) (K + int j) of
           None \<Rightarrow> Inl IndexError
         | Some i \<Rightarrow> inject_loop js K fresh h' (particles[i := new]))"

definition resample ::
  "nat \<Rightarrow> real \<Rightarrow> nat list \<Rightarrow> (nat \<Rightarrow> real \<times> real) \<Rightarrow> store \<Rightarrow> ref list
     \<Rightarrow> error + (store \<times> ref list)" where
  "resample num_particles alpha draws fresh h particles =
     (let weights = weights_of h particles;
          normalized_weights = normalize_weights weights
      in rbind (np_choice num_particles num_particles normalized_weights draws) (\<lambda>indexes.
         rbind (keep_loop (py_range (py_int (real num_particles * alpha))) indexes particles)
           (\<lambda>particles.
         inject_loop (py_range (int num_particles - py_int (real num_particles * alpha)))
           (py_int (real num_particles * alpha)) fresh h particles)))"

section \<open>Properties of the Kalman filter notebook\<close>

subsection \<open>Shapes and entries\<close>

lemma rbind_Inr [simp]: "rbind (Inr x) f = f x" by (simp add: rbind_def)
lemma rbind_Inl [simp]: "rbind (Inl e) f = Inl e" by (simp add: rbind_def)

lemma mat_rows: "mat r c A \<Longrightarrow> i < r \<Longrightarrow> length (A ! i) = c"
  by (simp add: mat_def list_all_length)

lemma mat_length: "mat r c A \<Longrightarrow> length A = r"
  by (simp add: mat_def)

lemma mat_ncols: "mat r c A \<Longrightarrow> ncols A = c"
  by (cases A) (auto simp: mat_def ncols_def)

lemma mat_pos: "mat r c A \<Longrightarrow> 0 < r \<and> 0 < c"
  by (simp add: mat_def)

lemma matI: "0 < r \<Longrightarrow> 0 < c \<Longrightarrow> length A = r \<Longrightarrow> (\<And>i. i < r \<Longrightarrow> length (A ! i) = c) \<Longrightarrow> mat r c A"
  by (simp add: mat_def list_all_length)

lemma dot_sum: "length u = n \<Longrightarrow> length v = n \<Longrightarrow> dot u v = (\<Sum>k<n. u ! k * v ! k)"
proof -
  assume a: "length u = n" "length v = n"
  have "map2 (*) u v = map (\<lambda>k. u ! k * v ! k) [0..<n]"
    using a by (intro nth_equalityI) auto
  then show ?thesis
    by (simp add: dot_def interv_sum_list_conv_sum_set_nat atLeast0LessThan)
qed

lemma col_nth: "i < length A \<Longrightarrow> col A j ! i = A ! i ! j"
  by (simp add: col_def)

lemma length_col [simp]: "length (col A j) = length A"
  by (simp add: col_def)

lemma T_mat: "mat r c A \<Longrightarrow> mat c r (T A)"
  by (auto simp: T_def mat_ncols intro!: matI dest: mat_pos mat_length)

lemma T_nth: "mat r c A \<Longrightarrow> i < c \<Longrightarrow> j < r \<Longrightarrow> T A ! i ! j = A ! j ! i"
  by (simp add: T_def mat_ncols col_nth mat_length)

lemma mat_eqI: "mat r c A \<Longrightarrow> mat r c B \<Longrightarrow> (\<And>i j. i < r \<Longrightarrow> j < c \<Longrightarrow> A ! i ! j = B ! i ! j) \<Longrightarrow> A = B"
  by (intro nth_equalityI) (auto simp: mat_length mat_rows)

lemma T_T: "mat r c A \<Longrightarrow> T (T A) = A"
proof (rule mat_eqI[of r c])
  assume a: "mat r c A"
  show "mat r c (T (T A))" using a by (intro T_mat)
  show "mat r c A" by (rule a)
  fix i j assume "i < r" "j < c"
  then show "T (T A) ! i ! j = A ! i ! j"
    using T_nth[OF T_mat[OF a], of i j] T_nth[OF a, of j i] by simp
qed

lemma mat_mul_mat: "mat r c A \<Longrightarrow> mat c d B \<Longrightarrow> mat r d (mat_mul A B)"
  by (auto simp: mat_mul_def mat_ncols intro!: matI dest: mat_pos mat_length)

lemma mat_mul_nth: "mat r c A \<Longrightarrow> mat c d B \<Longrightarrow> i < r \<Longrightarrow> j < d \<Longrightarrow>
  mat_mul A B ! i ! j = (\<Sum>k<c. A ! i ! k * B ! k ! j)"
proof -
  assume a: "mat r c A" "mat c d B" "i < r" "j < d"
  have "mat_mul A B ! i ! j = dot (A ! i) (col B j)"
    using a by (simp add: mat_mul_def mat_ncols mat_length)
  also have "\<dots> = (\<Sum>k<c. (A ! i) ! k * col B j ! k)"
    using a by (intro dot_sum) (auto simp: mat_rows mat_length)
  also have "\<dots> = (\<Sum>k<c. A ! i ! k * B ! k ! j)"
    using a by (intro sum.cong) (auto simp: col_nth mat_length)
  finally show ?thesis .
qed

lemma mat_vec_length: "mat r c A \<Longrightarrow> length (mat_vec A v) = r"
  by (simp add: mat_vec_def mat_length)

lemma mat_vec_nth: "mat r c A \<Longrightarrow> length v = c \<Longrightarrow> i < r \<Longrightarrow> mat_vec A v ! i = (\<Sum>k<c. A ! i ! k * v ! k)"
  by (simp add: mat_vec_def mat_length dot_sum[of _ c] mat_rows)

lemma vec_add_length: "length u = n \<Longrightarrow> length v = n \<Longrightarrow> length (vec_add u v) = n"
  by (simp add: vec_add_def)
lemma vec_sub_length: "length u = n \<Longrightarrow> length v = n \<Longrightarrow> length (vec_sub u v) = n"
  by (simp add: vec_sub_def)
lemma vec_add_nth: "length u = n \<Longrightarrow> length v = n \<Longrightarrow> i < n \<Longrightarrow> vec_add u v ! i = u ! i + v ! i"
  by (simp add: vec_add_def)
lemma vec_sub_nth: "length u = n \<Longrightarrow> length v = n \<Longrightarrow> i < n \<Longrightarrow> vec_sub u v ! i = u ! i - v ! i"
  by (simp add: vec_sub_def)

lemma mat_add_mat: "mat r c A \<Longrightarrow> mat r c B \<Longrightarrow> mat r c (mat_add A B)"
  by (intro matI) (auto simp: mat_add_def vec_add_def mat_rows mat_length dest: mat_pos)
lemma mat_sub_mat: "mat r c A \<Longrightarrow> mat r c B \<Longrightarrow> mat r c (mat_sub A B)"
  by (intro matI) (auto simp: mat_sub_def vec_sub_def mat_rows mat_length dest: mat_pos)
lemma mat_add_nth: "mat r c A \<Longrightarrow> mat r c B \<Longrightarrow> i < r \<Longrightarrow> j < c \<Longrightarrow> mat_add A B ! i ! j = A ! i ! j + B ! i ! j"
  by (simp add: mat_add_def vec_add_def mat_rows mat_length)
lemma mat_sub_nth: "mat r c A \<Longrightarrow> mat r c B \<Longrightarrow> i < r \<Longrightarrow> j < c \<Longrightarrow> mat_sub A B ! i ! j = A ! i ! j - B ! i ! j"
  by (simp add: mat_sub_def vec_sub_def mat_rows mat_length)

subsection \<open>Matrices as operators\<close>

lemma vec_eqI: "length u = n \<Longrightarrow> length v = n \<Longrightarrow> (\<And>i. i < n \<Longrightarrow> u ! i = v ! i) \<Longrightarrow> u = v"
  by (intro nth_equalityI) auto

lemma dot_comm: "length u = length v \<Longrightarrow> dot u v = dot v u"
  by (simp add: dot_sum[of u "length v" v] dot_sum[of v "length v" u] mult.commute)

lemma dot_add_right: "length u = n \<Longrightarrow> length v = n \<Longrightarrow> length w = n \<Longrightarrow>
  dot u (vec_add v w) = dot u v + dot u w"
  by (simp add: dot_sum[of _ n] vec_add_length vec_add_nth[of _ n] distrib_left sum.distrib)

lemma dot_sub_right: "length u = n \<Longrightarrow> length v = n \<Longrightarrow> length w = n \<Longrightarrow>
  dot u (vec_sub v w) = dot u v - dot u w"
  by (simp add: dot_sum[of _ n] vec_sub_length vec_sub_nth[of _ n] right_diff_distrib sum_subtractf)

lemma mat_vec_mul: 
  assumes "mat r c A" "mat c d B" "length v = d"
  shows "mat_vec (mat_mul A B) v = mat_vec A (mat_vec B v)"
proof (rule vec_eqI[of _ r])
  show "length (mat_vec (mat_mul A B) v) = r"
    using assms by (simp add: mat_vec_length[OF mat_mul_mat])
  show "length (mat_vec A (mat_vec B v)) = r"
    using assms by (simp add: mat_vec_length)
  fix i assume i: "i < r"
  have "mat_vec (mat_mul A B) v ! i = (\<Sum>j<d. (\<Sum>k<c. A ! i ! k * B ! k ! j) * v ! j)"
    using assms i by (simp add: mat_vec_nth[OF mat_mul_mat] mat_mul_nth)
  also have "\<dots> = (\<Sum>j<d. \<Sum>k<c. A ! i ! k * (B ! k ! j * v ! j))"
    by (simp add: sum_distrib_right mult.assoc)
  also have "\<dots> = (\<Sum>k<c. \<Sum>j<d. A ! i ! k * (B ! k ! j * v ! j))"
    by (rule sum.swap)
  also have "\<dots> = (\<Sum>k<c. A ! i ! k * (\<Sum>j<d. B ! k ! j * v ! j))"
    by (simp add: sum_distrib_left)
  also have "\<dots> = (\<Sum>k<c. A ! i ! k * mat_vec B v ! k)"
    using assms by (intro sum.cong) (auto simp: mat_vec_nth)
  also have "\<dots> = mat_vec A (mat_vec B v) ! i"
    using assms i by (simp add: mat_vec_nth[of r c] mat_vec_length)
  finally show "mat_vec (mat_mul A B) v ! i = mat_vec A (mat_vec B v) ! i" .
qed

lemma dot_mat_vec_T:
  assumes "mat r c A" "length u = r" "length v = c"
  shows "dot u (mat_vec A v) = dot (mat_vec (T A) u) v"
proof -
  have "dot u (mat_vec A v) = (\<Sum>i<r. u ! i * (\<Sum>k<c. A ! i ! k * v ! k))"
    using assms by (simp add: dot_sum[of _ r] mat_vec_length mat_vec_nth)
  also have "\<dots> = (\<Sum>i<r. \<Sum>k<c. (A ! i ! k * u ! i) * v ! k)"
    by (simp add: sum_distrib_left mult_ac)
  also have "\<dots> = (\<Sum>k<c. \<Sum>i<r. (A ! i ! k * u ! i) * v ! k)"
    by (rule sum.swap)
  also have "\<dots> = (\<Sum>k<c. (\<Sum>i<r. T A ! k ! i * u ! i) * v ! k)"
    using assms by (simp add: sum_distrib_right T_nth)
  also have "\<dots> = (\<Sum>k<c. mat_vec (T A) u ! k * v ! k)"
    using assms by (intro sum.cong) (auto simp: mat_vec_nth[OF T_mat])
  also have "\<dots> = dot (mat_vec (T A) u) v"
    using assms by (simp add: dot_sum[of _ c] mat_vec_length[OF T_mat])
  finally show ?thesis .
qed

lemma mat_vec_add:
  assumes "mat r c A" "mat r c B" "length v = c"
  shows "mat_vec (mat_add A B) v = vec_add (mat_vec A v) (mat_vec B v)"
proof (rule vec_eqI[of _ r])
  show "length (mat_vec (mat_add A B) v) = r"
    using assms by (simp add: mat_vec_length[OF mat_add_mat])
  show "length (vec_add (mat_vec A v) (mat_vec B v)) = r"
    using assms by (simp add: vec_add_length mat_vec_length)
  fix i assume i: "i < r"
  show "mat_vec (mat_add A B) v ! i = vec_add (mat_vec A v) (mat_vec B v) ! i"
    using assms i
    by (simp add: mat_vec_nth[OF mat_add_mat] mat_add_nth vec_add_nth[of _ r] mat_vec_length
        mat_vec_nth distrib_right sum.distrib)
qed

lemma mat_vec_sub:
  assumes "mat r c A" "mat r c B" "length v = c"
  shows "mat_vec (mat_sub A B) v = vec_sub (mat_vec A v) (mat_vec B v)"
proof (rule vec_eqI[of _ r])
  show "length (mat_vec (mat_sub A B) v) = r"
    using assms by (simp add: mat_vec_length[OF mat_sub_mat])
  show "length (vec_sub (mat_vec A v) (mat_vec B v)) = r"
    using assms by (simp add: vec_sub_length mat_vec_length)
  fix i assume i: "i < r"
  show "mat_vec (mat_sub A B) v ! i = vec_sub (mat_vec A v) (mat_vec B v) ! i"
    using assms i
    by (simp add: mat_vec_nth[OF mat_sub_mat] mat_sub_nth vec_sub_nth[of _ r] mat_vec_length
        mat_vec_nth left_diff_distrib sum_subtractf)
qed

lemma identity_mat: "0 < n \<Longrightarrow> mat n n (identity n)"
  by (intro matI) (auto simp: identity_def)

lemma identity_nth: "i < n \<Longrightarrow> j < n \<Longrightarrow> identity n ! i ! j = (if i = j then 1 else 0)"
  by (simp add: identity_def)

lemma mat_vec_identity: "length v = n \<Longrightarrow> 0 < n \<Longrightarrow> mat_vec (identity n) v = v"
proof (rule vec_eqI[of _ n])
  assume a: "length v = n" "0 < n"
  show "length (mat_vec (identity n) v) = n"
    using a by (simp add: mat_vec_length[OF identity_mat])
  show "length v = n" by (rule a)
  fix i assume i: "i < n"
  have "mat_vec (identity n) v ! i = (\<Sum>k<n. (if i = k then 1 else 0) * v ! k)"
    using a i by (simp add: mat_vec_nth[OF identity_mat] identity_nth)
  also have "\<dots> = (\<Sum>k<n. if k = i then v ! k else 0)"
    by (intro sum.cong) auto
  also have "\<dots> = v ! i"
    using i by (simp add: sum.delta)
  finally show "mat_vec (identity n) v ! i = v ! i" .
qed

lemma unit_length [simp]: "length (unit n i) = n"
  by (simp add: unit_def)

lemma unit_nth: "k < n \<Longrightarrow> unit n i ! k = (if k = i then 1 else 0)"
  by (simp add: unit_def)

lemma dot_unit: "length v = n \<Longrightarrow> i < n \<Longrightarrow> dot (unit n i) v = v ! i"
proof -
  assume a: "length v = n" "i < n"
  have "dot (unit n i) v = (\<Sum>k<n. (if k = i then 1 else 0) * v ! k)"
    using a by (simp add: dot_sum[of _ n] unit_nth)
  also have "\<dots> = (\<Sum>k<n. if k = i then v ! k else 0)"
    by (intro sum.cong) auto
  also have "\<dots> = v ! i" using a by (simp add: sum.delta)
  finally show ?thesis .
qed

lemma mat_vec_unit: "mat r c A \<Longrightarrow> j < c \<Longrightarrow> mat_vec A (unit c j) = col A j"
proof (rule vec_eqI[of _ r])
  assume a: "mat r c A" "j < c"
  show "length (mat_vec A (unit c j)) = r" using a by (simp add: mat_vec_length)
  show "length (col A j) = r" using a by (simp add: mat_length)
  fix i assume i: "i < r"
  have "mat_vec A (unit c j) ! i = dot (A ! i) (unit c j)"
    using a i by (simp add: mat_vec_def mat_length)
  also have "\<dots> = dot (unit c j) (A ! i)"
    using a i by (intro dot_comm) (simp add: mat_rows)
  also have "\<dots> = A ! i ! j"
    using a i by (simp add: dot_unit mat_rows)
  finally show "mat_vec A (unit c j) ! i = col A j ! i"
    using a i by (simp add: col_nth mat_length)
qed

lemma quad_unit: "mat n n A \<Longrightarrow> i < n \<Longrightarrow> quad A (unit n i) = A ! i ! i"
  by (simp add: quad_def mat_vec_unit dot_unit mat_length col_nth)

lemma trace_sum: "mat n n A \<Longrightarrow> trace A = (\<Sum>i<n. A ! i ! i)"
  by (simp add: trace_def mat_length interv_sum_list_conv_sum_set_nat atLeast0LessThan)

lemma trace_quad: "mat n n A \<Longrightarrow> trace A = (\<Sum>i<n. quad A (unit n i))"
  by (simp add: trace_sum quad_unit)

subsection \<open>The 2x2 inverse and the checked operators\<close>

lemma mat22: assumes "mat 2 2 S" shows "\<exists>a b c d. S = [[a, b], [c, d]]"
proof -
  have l: "length S = 2" using assms by (simp add: mat_def)
  then obtain r0 r1 where S: "S = [r0, r1]"
    by (auto simp: numeral_2_eq_2 length_Suc_conv)
  have "length r0 = 2" "length r1 = 2" using assms S by (auto simp: mat_def)
  then obtain a b c d where "r0 = [a, b]" "r1 = [c, d]"
    by (auto simp: numeral_2_eq_2 length_Suc_conv)
  with S show ?thesis by blast
qed

lemma upt2: "[0..<2] = [0, 1]" by (simp add: numeral_2_eq_2)

lemma mat_mul22: "mat_mul [[a, b], [c, d]] [[p, q], [r, s]] =
  [[a * p + b * r, a * q + b * s], [c * p + d * r, c * q + d * s]]"
  by (simp add: mat_mul_def ncols_def col_def dot_def upt2)

lemma identity2: "identity 2 = [[1, 0], [0, 1]]"
  by (simp add: identity_def upt2)

lemma mat22I: "mat 2 2 [[a, b], [c, d]]"
  by (simp add: mat_def)

lemma singular22:
  assumes "a * d - b * c = 0"
  shows "\<not> invertible 2 [[a, b], [c, d]]"
proof
  assume "invertible 2 [[a, b], [c, d]]"
  then obtain Si where Si: "mat 2 2 Si" "mat_mul [[a, b], [c, d]] Si = identity 2"
    by (auto simp: invertible_def inverse_of_def)
  then obtain p q r s where "Si = [[p, q], [r, s]]" using mat22 by blast
  with Si have e: "a * p + b * r = 1" "a * q + b * s = 0" "c * p + d * r = 0" "c * q + d * s = 1"
    by (simp_all add: mat_mul22 identity2)
  have "(a * d - b * c) * (p * s - q * r) =
      (a * p + b * r) * (c * q + d * s) - (a * q + b * s) * (c * p + d * r)"
    by (simp add: algebra_simps)
  with e assms show False by simp
qed

lemma inv2_inverse:
  assumes "a * d - b * c \<noteq> 0"
  shows "inverse_of 2 [[a, b], [c, d]]
     [[d / (a * d - b * c), - b / (a * d - b * c)], [- c / (a * d - b * c), a / (a * d - b * c)]]"
proof -
  define D where "D = a * d - b * c"
  have D: "D \<noteq> 0" using assms by (simp add: D_def)
  have e1: "a * (d / D) + b * (- c / D) = 1"
  proof -
    have "a * (d / D) + b * (- c / D) = (a * d - b * c) / D"
      by (simp add: diff_divide_distrib)
    then show ?thesis using D by (simp add: D_def)
  qed
  have e2: "a * (- b / D) + b * (a / D) = 0"
    by simp
  have e3: "c * (d / D) + d * (- c / D) = 0"
    by simp
  have e4: "c * (- b / D) + d * (a / D) = 1"
  proof -
    have "c * (- b / D) + d * (a / D) = (a * d - b * c) / D"
      by (simp add: diff_divide_distrib mult.commute)
    then show ?thesis using D by (simp add: D_def)
  qed
  have e5: "d / D * a + - b / D * c = 1"
    using e1 by (simp add: mult.commute)
  have e6: "d / D * b + - b / D * d = 0"
    by simp
  have e7: "- c / D * a + a / D * c = 0"
    by simp
  have e8: "- c / D * b + a / D * d = 1"
    using e4 by (simp add: mult.commute)
  have "inverse_of 2 [[a, b], [c, d]] [[d / D, - b / D], [- c / D, a / D]]"
    unfolding inverse_of_def mat_mul22 identity2
    using e1 e2 e3 e4 e5 e6 e7 e8 by (simp add: mat22I)
  then show ?thesis by (simp add: D_def)
qed

lemma inv2_invertible: "a * d - b * c \<noteq> 0 \<Longrightarrow> invertible 2 [[a, b], [c, d]]"
  unfolding invertible_def using inv2_inverse by blast

lemma inv2_singular: "a * d - b * c = 0 \<Longrightarrow> \<not> invertible 2 [[a, b], [c, d]]"
  by (rule singular22)

lemma inv2_contract: "inv_contract 2 inv2"
  unfolding inv_contract_def
proof (intro allI impI)
  fix S assume m: "mat 2 2 S" and i: "invertible 2 S"
  from m obtain a b c d where S: "S = [[a, b], [c, d]]" using mat22 by blast
  have D: "a * d - b * c \<noteq> 0" using i singular22[of a d b c] unfolding S by blast
  have "inv2 S = Inr [[d / (a * d - b * c), - b / (a * d - b * c)],
      [- c / (a * d - b * c), a / (a * d - b * c)]]"
    using D by (simp add: inv2_def S)
  with inv2_inverse[OF D] show "\<exists>Si. inv2 S = Inr Si \<and> inverse_of 2 S Si"
    unfolding S by blast
qed

lemma matvec_ok: "mat r c A \<Longrightarrow> length v = c \<Longrightarrow> matvec A v = Inr (mat_vec A v)"
  by (simp add: matvec_def mat_ncols)
lemma matmul_ok: "mat r c A \<Longrightarrow> mat c d B \<Longrightarrow> matmul A B = Inr (mat_mul A B)"
  by (simp add: matmul_def mat_ncols mat_length)
lemma madd_ok: "mat r c A \<Longrightarrow> mat r c B \<Longrightarrow> madd A B = Inr (mat_add A B)"
  by (simp add: madd_def mat_ncols mat_length)
lemma msub_ok: "mat r c A \<Longrightarrow> mat r c B \<Longrightarrow> msub A B = Inr (mat_sub A B)"
  by (simp add: msub_def mat_ncols mat_length)
lemma vadd_ok: "length u = n \<Longrightarrow> length v = n \<Longrightarrow> vadd u v = Inr (vec_add u v)"
  by (simp add: vadd_def)
lemma vsub_ok: "length u = n \<Longrightarrow> length v = n \<Longrightarrow> vsub u v = Inr (vec_sub u v)"
  by (simp add: vsub_def)

lemma residual_covariance_mat:
  "mat k n H \<Longrightarrow> mat k k R \<Longrightarrow> mat n n Sig \<Longrightarrow> mat k k (residual_covariance H R Sig)"
  unfolding residual_covariance_def
  by (intro mat_add_mat mat_mul_mat[where r=k and c=n and d=k] mat_mul_mat[where r=k and c=n and d=n] T_mat)

lemma update_unfold:
  assumes "mat k n H" "mat k k R" "vec k z" "vec n mu" "mat n n Sig"
  shows "update np_inv H R z mu Sig =
    rbind (np_inv (residual_covariance H R Sig)) (\<lambda>Si.
    rbind (matmul (mat_mul Sig (T H)) Si) (\<lambda>K.
    rbind (matvec K (residual_mean H z mu)) (\<lambda>Kr.
    rbind (vadd mu Kr) (\<lambda>mu'.
    rbind (matmul K H) (\<lambda>KH.
    rbind (matmul KH Sig) (\<lambda>KHS.
    rbind (msub Sig KHS) (\<lambda>Sig'. Inr (mu', Sig'))))))))"
proof -
  have 1: "matvec H mu = Inr (mat_vec H mu)"
    using assms by (simp add: matvec_ok vec_def)
  have 2: "vsub z (mat_vec H mu) = Inr (residual_mean H z mu)"
    using assms by (simp add: vsub_ok[where n=k] vec_def mat_vec_length residual_mean_def)
  have 3: "matmul H Sig = Inr (mat_mul H Sig)"
    using assms by (simp add: matmul_ok)
  have 4: "matmul (mat_mul H Sig) (T H) = Inr (mat_mul (mat_mul H Sig) (T H))"
    using assms by (intro matmul_ok[where r=k and c=n and d=k] mat_mul_mat[where r=k and c=n and d=n] T_mat)
  have 5: "madd (mat_mul (mat_mul H Sig) (T H)) R = Inr (residual_covariance H R Sig)"
    unfolding residual_covariance_def
    using assms by (intro madd_ok[where r=k and c=k] mat_mul_mat[where r=k and c=n and d=k] mat_mul_mat[where r=k and c=n and d=n] T_mat)
  have 6: "matmul Sig (T H) = Inr (mat_mul Sig (T H))"
    using assms by (intro matmul_ok[where r=n and c=n and d=k] T_mat)
  show ?thesis
    unfolding update_def by (simp add: 1 2 3 4 5 6)
qed

lemma update_success:
  assumes "mat k n H" "mat k k R" "vec k z" "vec n mu" "mat n n Sig"
    and "np_inv (residual_covariance H R Sig) = Inr Si" "mat k k Si"
  shows "update np_inv H R z mu Sig =
    Inr (vec_add mu (mat_vec (kalman_gain H Sig Si) (residual_mean H z mu)),
         mat_sub Sig (mat_mul (mat_mul (kalman_gain H Sig Si) H) Sig))"
proof -
  have SHt: "mat n k (mat_mul Sig (T H))"
    using assms by (intro mat_mul_mat[where r=n and c=n and d=k] T_mat)
  have K: "mat n k (kalman_gain H Sig Si)"
    unfolding kalman_gain_def by (rule mat_mul_mat[OF SHt assms(7)])
  have r: "length (residual_mean H z mu) = k"
    using assms by (simp add: residual_mean_def vec_sub_length vec_def mat_vec_length)
  have KH: "mat n n (mat_mul (kalman_gain H Sig Si) H)"
    by (rule mat_mul_mat[OF K assms(1)])
  have KHS: "mat n n (mat_mul (mat_mul (kalman_gain H Sig Si) H) Sig)"
    by (rule mat_mul_mat[OF KH assms(5)])
  have 1: "matmul (mat_mul Sig (T H)) Si = Inr (kalman_gain H Sig Si)"
    unfolding kalman_gain_def by (rule matmul_ok[OF SHt assms(7)])
  have 2: "matvec (kalman_gain H Sig Si) (residual_mean H z mu) = Inr (mat_vec (kalman_gain H Sig Si) (residual_mean H z mu))"
    by (rule matvec_ok[OF K r])
  have 3: "vadd mu (mat_vec (kalman_gain H Sig Si) (residual_mean H z mu)) =
      Inr (vec_add mu (mat_vec (kalman_gain H Sig Si) (residual_mean H z mu)))"
    using assms K by (intro vadd_ok[where n=n]) (simp_all add: vec_def mat_vec_length)
  have 4: "matmul (kalman_gain H Sig Si) H = Inr (mat_mul (kalman_gain H Sig Si) H)"
    by (rule matmul_ok[OF K assms(1)])
  have 5: "matmul (mat_mul (kalman_gain H Sig Si) H) Sig = Inr (mat_mul (mat_mul (kalman_gain H Sig Si) H) Sig)"
    by (rule matmul_ok[OF KH assms(5)])
  have 6: "msub Sig (mat_mul (mat_mul (kalman_gain H Sig Si) H) Sig) = Inr (mat_sub Sig (mat_mul (mat_mul (kalman_gain H Sig Si) H) Sig))"
    by (rule msub_ok[OF assms(5) KHS])
  show ?thesis
    by (simp add: update_unfold[OF assms(1-5)] assms(6) 1 2 3 4 5 6)
qed

lemma update_failure:
  assumes "mat k n H" "mat k k R" "vec k z" "vec n mu" "mat n n Sig"
    and "np_inv (residual_covariance H R Sig) = Inl e"
  shows "update np_inv H R z mu Sig = Inl e"
  by (simp add: update_unfold[OF assms(1-5)] assms(6))

lemma predict_Inr:
  assumes "predict A B Q mu u Sig = Inr (mu_p, Sig_p)"
  shows "mu_p = vec_add (mat_vec A mu) (mat_vec B u) \<and>
     Sig_p = mat_add (mat_mul (mat_mul A Sig) (T A)) Q"
  using assms
  by (simp add: predict_def rbind_def matvec_def matmul_def madd_def vadd_def
      split: if_splits)

subsection \<open>Positive semi-definite matrices\<close>

lemma psd_mat: "psd n A \<Longrightarrow> mat n n A" by (simp add: psd_def)
lemma psd_sym: "psd n A \<Longrightarrow> T A = A" by (simp add: psd_def)
lemma psd_quad: "psd n A \<Longrightarrow> length v = n \<Longrightarrow> 0 \<le> quad A v" by (simp add: psd_def vec_def)

lemma psdI:
  assumes "mat n n A" "T A = A" "\<And>v. length v = n \<Longrightarrow> 0 \<le> quad A v"
  shows "psd n A"
  unfolding psd_def vec_def using assms by blast

lemma dot_T_mat_vec:
  assumes "mat r c A" "length u = c" "length v = r"
  shows "dot u (mat_vec (T A) v) = dot (mat_vec A u) v"
  using dot_mat_vec_T[OF T_mat[OF assms(1)] assms(2) assms(3)] T_T[OF assms(1)] by simp

lemma sym_self_adjoint:
  assumes "mat n n M" "T M = M" "length u = n" "length v = n"
  shows "dot u (mat_vec M v) = dot (mat_vec M u) v"
  using dot_mat_vec_T[OF assms(1) assms(3) assms(4)] assms(2) by simp

lemma self_adjoint_sym:
  assumes M: "mat n n M"
    and sa: "\<And>u v. length u = n \<Longrightarrow> length v = n \<Longrightarrow> dot u (mat_vec M v) = dot (mat_vec M u) v"
  shows "T M = M"
proof (rule mat_eqI[of n n])
  show "mat n n (T M)" by (rule T_mat[OF M])
  show "mat n n M" by (rule M)
  fix i j assume ij: "i < n" "j < n"
  have 1: "dot (unit n j) (mat_vec M (unit n i)) = M ! j ! i"
    using M ij by (simp add: mat_vec_unit dot_unit mat_length col_nth)
  have 2: "dot (mat_vec M (unit n j)) (unit n i) = dot (unit n i) (mat_vec M (unit n j))"
    using M by (intro dot_comm) (simp add: mat_vec_length)
  have 3: "dot (unit n i) (mat_vec M (unit n j)) = M ! i ! j"
    using M ij by (simp add: mat_vec_unit dot_unit mat_length col_nth)
  have "M ! j ! i = M ! i ! j"
    using sa[of "unit n j" "unit n i"] 1 2 3 by simp
  then show "T M ! i ! j = M ! i ! j"
    using T_nth[OF M ij] by simp
qed

text \<open>The residual covariance as an operator.\<close>

lemma residual_covariance_apply:
  assumes "mat k n H" "mat k k R" "mat n n Sig" "length w = k"
  shows "mat_vec (residual_covariance H R Sig) w =
    vec_add (mat_vec H (mat_vec Sig (mat_vec (T H) w))) (mat_vec R w)"
proof -
  have HS: "mat k n (mat_mul H Sig)" by (rule mat_mul_mat[OF assms(1) assms(3)])
  have Ht: "mat n k (T H)" by (rule T_mat[OF assms(1)])
  have HSHt: "mat k k (mat_mul (mat_mul H Sig) (T H))" by (rule mat_mul_mat[OF HS Ht])
  have "mat_vec (residual_covariance H R Sig) w =
      vec_add (mat_vec (mat_mul (mat_mul H Sig) (T H)) w) (mat_vec R w)"
    unfolding residual_covariance_def by (rule mat_vec_add[OF HSHt assms(2) assms(4)])
  also have "mat_vec (mat_mul (mat_mul H Sig) (T H)) w = mat_vec (mat_mul H Sig) (mat_vec (T H) w)"
    by (rule mat_vec_mul[OF HS Ht assms(4)])
  also have "\<dots> = mat_vec H (mat_vec Sig (mat_vec (T H) w))"
    by (rule mat_vec_mul[OF assms(1) assms(3)]) (simp add: mat_vec_length[OF Ht])
  finally show ?thesis .
qed

lemma residual_covariance_bilinear:
  assumes "mat k n H" "mat k k R" "mat n n Sig" "length u = k" "length w = k"
  shows "dot u (mat_vec (residual_covariance H R Sig) w) =
    dot (mat_vec (T H) u) (mat_vec Sig (mat_vec (T H) w)) + dot u (mat_vec R w)"
proof -
  have Ht: "mat n k (T H)" by (rule T_mat[OF assms(1)])
  have l1: "length (mat_vec Sig (mat_vec (T H) w)) = n"
    by (simp add: mat_vec_length[OF assms(3)])
  have l2: "length (mat_vec H (mat_vec Sig (mat_vec (T H) w))) = k"
    by (simp add: mat_vec_length[OF assms(1)])
  have l3: "length (mat_vec R w) = k"
    by (simp add: mat_vec_length[OF assms(2)])
  have "dot u (mat_vec (residual_covariance H R Sig) w) =
     dot u (mat_vec H (mat_vec Sig (mat_vec (T H) w))) + dot u (mat_vec R w)"
    by (simp add: residual_covariance_apply[OF assms(1,2,3,5)] dot_add_right[OF assms(4) l2 l3])
  also have "dot u (mat_vec H (mat_vec Sig (mat_vec (T H) w))) =
     dot (mat_vec (T H) u) (mat_vec Sig (mat_vec (T H) w))"
    by (rule dot_mat_vec_T[OF assms(1) assms(4) l1])
  finally show ?thesis .
qed

lemma residual_covariance_psd:
  assumes H: "mat k n H" and R: "psd k R" and Sig: "psd n Sig"
  shows "psd k (residual_covariance H R Sig)"
proof -
  note Rm = psd_mat[OF R] and Sm = psd_mat[OF Sig]
  have Ht: "mat n k (T H)" by (rule T_mat[OF H])
  have S: "mat k k (residual_covariance H R Sig)"
    by (rule residual_covariance_mat[OF H Rm Sm])
  have sa: "dot u (mat_vec (residual_covariance H R Sig) v) = dot (mat_vec (residual_covariance H R Sig) u) v"
    if uv: "length u = k" "length v = k" for u v
  proof -
    have lu: "length (mat_vec (T H) u) = n" and lv: "length (mat_vec (T H) v) = n"
      by (simp_all add: mat_vec_length[OF Ht])
    have "dot u (mat_vec (residual_covariance H R Sig) v) =
        dot (mat_vec (T H) u) (mat_vec Sig (mat_vec (T H) v)) + dot u (mat_vec R v)"
      by (rule residual_covariance_bilinear[OF H Rm Sm uv])
    also have "dot (mat_vec (T H) u) (mat_vec Sig (mat_vec (T H) v)) =
        dot (mat_vec Sig (mat_vec (T H) u)) (mat_vec (T H) v)"
      by (rule sym_self_adjoint[OF Sm psd_sym[OF Sig] lu lv])
    also have "\<dots> = dot (mat_vec (T H) v) (mat_vec Sig (mat_vec (T H) u))"
      by (rule dot_comm) (simp add: mat_vec_length[OF Sm] lv)
    also have "dot u (mat_vec R v) = dot (mat_vec R u) v"
      by (rule sym_self_adjoint[OF Rm psd_sym[OF R] uv])
    also have "\<dots> = dot v (mat_vec R u)"
      by (rule dot_comm) (simp add: mat_vec_length[OF Rm] uv)
    also have "dot (mat_vec (T H) v) (mat_vec Sig (mat_vec (T H) u)) + dot v (mat_vec R u) =
        dot v (mat_vec (residual_covariance H R Sig) u)"
      by (rule residual_covariance_bilinear[OF H Rm Sm uv(2) uv(1), symmetric])
    also have "\<dots> = dot (mat_vec (residual_covariance H R Sig) u) v"
      by (rule dot_comm) (simp add: mat_vec_length[OF S] uv)
    finally show ?thesis .
  qed
  have q: "0 \<le> quad (residual_covariance H R Sig) v" if v: "length v = k" for v
  proof -
    have "quad (residual_covariance H R Sig) v = quad Sig (mat_vec (T H) v) + quad R v"
      unfolding quad_def by (rule residual_covariance_bilinear[OF H Rm Sm v v])
    moreover have "0 \<le> quad Sig (mat_vec (T H) v)"
      by (rule psd_quad[OF Sig]) (simp add: mat_vec_length[OF Ht])
    moreover have "0 \<le> quad R v" by (rule psd_quad[OF R v])
    ultimately show ?thesis by simp
  qed
  show ?thesis
    by (rule psdI[OF S self_adjoint_sym[OF S sa] q])
qed

lemma inverse_apply_right:
  assumes "mat k k S" "inverse_of k S Si" "length y = k"
  shows "mat_vec S (mat_vec Si y) = y"
proof -
  have Si: "mat k k Si" and e: "mat_mul S Si = identity k"
    using assms(2) by (simp_all add: inverse_of_def)
  have "mat_vec S (mat_vec Si y) = mat_vec (mat_mul S Si) y"
    by (rule mat_vec_mul[OF assms(1) Si assms(3), symmetric])
  also have "\<dots> = y"
    using assms(3) mat_pos[OF assms(1)] by (simp add: e mat_vec_identity)
  finally show ?thesis .
qed

lemma inverse_apply_left:
  assumes "mat k k S" "inverse_of k S Si" "length y = k"
  shows "mat_vec Si (mat_vec S y) = y"
proof -
  have Si: "mat k k Si" and e: "mat_mul Si S = identity k"
    using assms(2) by (simp_all add: inverse_of_def)
  have "mat_vec Si (mat_vec S y) = mat_vec (mat_mul Si S) y"
    by (rule mat_vec_mul[OF Si assms(1) assms(3), symmetric])
  also have "\<dots> = y"
    using assms(3) mat_pos[OF assms(1)] by (simp add: e mat_vec_identity)
  finally show ?thesis .
qed

lemma inverse_bilinear:
  assumes S: "psd k S" and Si: "inverse_of k S Si" and a: "length a = k" and b: "length b = k"
  shows "dot a (mat_vec Si b) = dot (mat_vec Si a) (mat_vec S (mat_vec Si b))"
proof -
  note Sm = psd_mat[OF S]
  have Sim: "mat k k Si" using Si by (simp add: inverse_of_def)
  have la: "length (mat_vec Si a) = k" and lb: "length (mat_vec Si b) = k"
    by (simp_all add: mat_vec_length[OF Sim])
  have "dot a (mat_vec Si b) = dot (mat_vec S (mat_vec Si a)) (mat_vec Si b)"
    by (simp add: inverse_apply_right[OF Sm Si a])
  also have "\<dots> = dot (mat_vec Si a) (mat_vec S (mat_vec Si b))"
    by (rule sym_self_adjoint[OF Sm psd_sym[OF S] la lb, symmetric])
  finally show ?thesis .
qed

lemma inverse_self_adjoint:
  assumes S: "psd k S" and Si: "inverse_of k S Si" and a: "length a = k" and b: "length b = k"
  shows "dot a (mat_vec Si b) = dot (mat_vec Si a) b"
  by (simp add: inverse_bilinear[OF assms] inverse_apply_right[OF psd_mat[OF S] Si b])

lemma inverse_quad:
  assumes S: "psd k S" and Si: "inverse_of k S Si" and y: "length y = k"
  shows "dot y (mat_vec Si y) = quad S (mat_vec Si y)"
  unfolding quad_def by (rule inverse_bilinear[OF S Si y y])

text \<open>The matrix \<open>kalman_gain @ H @ predicted_Sigma\<close> subtracted by \<open>update\<close>, as an operator.\<close>

lemma kalman_gain_mat:
  assumes "mat k n H" "mat n n Sig" "mat k k Si"
  shows "mat n k (kalman_gain H Sig Si)"
  unfolding kalman_gain_def
  by (rule mat_mul_mat[OF mat_mul_mat[OF assms(2) T_mat[OF assms(1)]] assms(3)])

lemma kalman_gain_apply:
  assumes H: "mat k n H" and Sig: "mat n n Sig" and Si: "mat k k Si" and y: "length y = k"
  shows "mat_vec (kalman_gain H Sig Si) y = mat_vec Sig (mat_vec (T H) (mat_vec Si y))"
proof -
  have Ht: "mat n k (T H)" by (rule T_mat[OF H])
  have SHt: "mat n k (mat_mul Sig (T H))" by (rule mat_mul_mat[OF Sig Ht])
  have "mat_vec (kalman_gain H Sig Si) y = mat_vec (mat_mul Sig (T H)) (mat_vec Si y)"
    unfolding kalman_gain_def by (rule mat_vec_mul[OF SHt Si y])
  also have "\<dots> = mat_vec Sig (mat_vec (T H) (mat_vec Si y))"
    by (rule mat_vec_mul[OF Sig Ht]) (simp add: mat_vec_length[OF Si])
  finally show ?thesis .
qed

lemma reduction_mat:
  assumes "mat k n H" "mat n n Sig" "mat k k Si"
  shows "mat n n (mat_mul (mat_mul (kalman_gain H Sig Si) H) Sig)"
  by (rule mat_mul_mat[OF mat_mul_mat[OF kalman_gain_mat[OF assms] assms(1)] assms(2)])

lemma reduction_apply:
  assumes H: "mat k n H" and Sig: "mat n n Sig" and Si: "mat k k Si" and v: "length v = n"
  shows "mat_vec (mat_mul (mat_mul (kalman_gain H Sig Si) H) Sig) v =
    mat_vec Sig (mat_vec (T H) (mat_vec Si (mat_vec H (mat_vec Sig v))))"
proof -
  note K = kalman_gain_mat[OF H Sig Si]
  have KH: "mat n n (mat_mul (kalman_gain H Sig Si) H)" by (rule mat_mul_mat[OF K H])
  have "mat_vec (mat_mul (mat_mul (kalman_gain H Sig Si) H) Sig) v =
      mat_vec (mat_mul (kalman_gain H Sig Si) H) (mat_vec Sig v)"
    by (rule mat_vec_mul[OF KH Sig v])
  also have "\<dots> = mat_vec (kalman_gain H Sig Si) (mat_vec H (mat_vec Sig v))"
    by (rule mat_vec_mul[OF K H]) (simp add: mat_vec_length[OF Sig])
  also have "\<dots> = mat_vec Sig (mat_vec (T H) (mat_vec Si (mat_vec H (mat_vec Sig v))))"
    by (rule kalman_gain_apply[OF H Sig Si]) (simp add: mat_vec_length[OF H])
  finally show ?thesis .
qed

lemma reduction_bilinear:
  assumes H: "mat k n H" and Sig: "psd n Sig" and Si: "mat k k Si"
    and u: "length u = n" and v: "length v = n"
  shows "dot u (mat_vec (mat_mul (mat_mul (kalman_gain H Sig Si) H) Sig) v) =
    dot (mat_vec H (mat_vec Sig u)) (mat_vec Si (mat_vec H (mat_vec Sig v)))"
proof -
  note Sm = psd_mat[OF Sig]
  have Ht: "mat n k (T H)" by (rule T_mat[OF H])
  let ?y = "mat_vec Si (mat_vec H (mat_vec Sig v))"
  have ly: "length ?y = k" by (simp add: mat_vec_length[OF Si])
  have lt: "length (mat_vec (T H) ?y) = n" by (simp add: mat_vec_length[OF Ht])
  have lu: "length (mat_vec Sig u) = n" by (simp add: mat_vec_length[OF Sm])
  have "dot u (mat_vec (mat_mul (mat_mul (kalman_gain H Sig Si) H) Sig) v) =
      dot u (mat_vec Sig (mat_vec (T H) ?y))"
    by (simp add: reduction_apply[OF H Sm Si v])
  also have "\<dots> = dot (mat_vec Sig u) (mat_vec (T H) ?y)"
    by (rule sym_self_adjoint[OF Sm psd_sym[OF Sig] u lt])
  also have "\<dots> = dot (mat_vec H (mat_vec Sig u)) ?y"
    by (rule dot_T_mat_vec[OF H lu ly])
  finally show ?thesis .
qed

lemma reduction_psd:
  assumes H: "mat k n H" and R: "psd k R" and Sig: "psd n Sig"
    and Si: "inverse_of k (residual_covariance H R Sig) Si"
  shows "psd n (mat_mul (mat_mul (kalman_gain H Sig Si) H) Sig)"
proof -
  note Sm = psd_mat[OF Sig]
  note S = residual_covariance_psd[OF H R Sig]
  have Sim: "mat k k Si" using Si by (simp add: inverse_of_def)
  note D = reduction_mat[OF H Sm Sim]
  have ly: "length (mat_vec H (mat_vec Sig v)) = k" for v
    by (simp add: mat_vec_length[OF H])
  have sa: "dot u (mat_vec (mat_mul (mat_mul (kalman_gain H Sig Si) H) Sig) v) =
      dot (mat_vec (mat_mul (mat_mul (kalman_gain H Sig Si) H) Sig) u) v"
    if uv: "length u = n" "length v = n" for u v
  proof -
    have "dot u (mat_vec (mat_mul (mat_mul (kalman_gain H Sig Si) H) Sig) v) =
        dot (mat_vec H (mat_vec Sig u)) (mat_vec Si (mat_vec H (mat_vec Sig v)))"
      by (rule reduction_bilinear[OF H Sig Sim uv])
    also have "\<dots> = dot (mat_vec Si (mat_vec H (mat_vec Sig u))) (mat_vec H (mat_vec Sig v))"
      by (rule inverse_self_adjoint[OF S Si ly ly])
    also have "\<dots> = dot (mat_vec H (mat_vec Sig v)) (mat_vec Si (mat_vec H (mat_vec Sig u)))"
      by (rule dot_comm) (simp add: mat_vec_length[OF Sim] ly)
    also have "\<dots> = dot v (mat_vec (mat_mul (mat_mul (kalman_gain H Sig Si) H) Sig) u)"
      by (rule reduction_bilinear[OF H Sig Sim uv(2) uv(1), symmetric])
    also have "\<dots> = dot (mat_vec (mat_mul (mat_mul (kalman_gain H Sig Si) H) Sig) u) v"
      by (rule dot_comm) (simp add: mat_vec_length[OF D] uv)
    finally show ?thesis .
  qed
  have q: "0 \<le> quad (mat_mul (mat_mul (kalman_gain H Sig Si) H) Sig) v" if v: "length v = n" for v
  proof -
    have "quad (mat_mul (mat_mul (kalman_gain H Sig Si) H) Sig) v =
        dot (mat_vec H (mat_vec Sig v)) (mat_vec Si (mat_vec H (mat_vec Sig v)))"
      unfolding quad_def by (rule reduction_bilinear[OF H Sig Sim v v])
    also have "\<dots> = quad (residual_covariance H R Sig) (mat_vec Si (mat_vec H (mat_vec Sig v)))"
      by (rule inverse_quad[OF S Si ly])
    finally show ?thesis
      using psd_quad[OF S, of "mat_vec Si (mat_vec H (mat_vec Sig v))"]
      by (simp add: mat_vec_length[OF Sim])
  qed
  show ?thesis
    by (rule psdI[OF D self_adjoint_sym[OF D sa] q])
qed

lemma mat_sub_sub:
  assumes "mat r c A" "mat r c B"
  shows "mat_sub A (mat_sub A B) = B"
proof (rule mat_eqI[of r c])
  show "mat r c (mat_sub A (mat_sub A B))"
    by (rule mat_sub_mat[OF assms(1) mat_sub_mat[OF assms]])
  show "mat r c B" by (rule assms(2))
  fix i j assume "i < r" "j < c"
  then show "mat_sub A (mat_sub A B) ! i ! j = B ! i ! j"
    by (simp add: mat_sub_nth[OF assms(1) mat_sub_mat[OF assms]] mat_sub_nth[OF assms])
qed

lemma trace_sub:
  assumes "mat n n A" "mat n n B"
  shows "trace (mat_sub A B) = trace A - trace B"
  by (simp add: trace_sum[OF assms(1)] trace_sum[OF assms(2)] trace_sum[OF mat_sub_mat[OF assms]]
      mat_sub_nth[OF assms] sum_subtractf)

lemma psd_trace_nonneg: "psd n A \<Longrightarrow> 0 \<le> trace A"
  by (simp add: trace_quad[OF psd_mat] sum_nonneg psd_quad)

lemma contract_inverse:
  assumes "inv_contract k np_inv" "mat k k S" "invertible k S"
  shows "\<exists>Si. np_inv S = Inr Si \<and> inverse_of k S Si"
  using assms unfolding inv_contract_def by blast

lemma dot_scale_right: "length u = length v \<Longrightarrow> dot u (map ((*) t) v) = t * dot u v"
  by (simp add: dot_sum[of u "length v"] sum_distrib_left mult_ac)

lemma mat_vec_scale:
  assumes "mat r c A" "length v = c"
  shows "mat_vec A (map ((*) t) v) = map ((*) t) (mat_vec A v)"
proof (rule vec_eqI[of _ r])
  show "length (mat_vec A (map ((*) t) v)) = r" by (simp add: mat_vec_length[OF assms(1)])
  show "length (map ((*) t) (mat_vec A v)) = r" by (simp add: mat_vec_length[OF assms(1)])
  fix i assume i: "i < r"
  show "mat_vec A (map ((*) t) v) ! i = map ((*) t) (mat_vec A v) ! i"
    using assms i
    by (simp add: mat_vec_nth[OF assms(1)] mat_vec_length[OF assms(1)] sum_distrib_left mult_ac)
qed

lemma mat_vec_vec_add:
  assumes "mat r c A" "length u = c" "length v = c"
  shows "mat_vec A (vec_add u v) = vec_add (mat_vec A u) (mat_vec A v)"
proof (rule vec_eqI[of _ r])
  show "length (mat_vec A (vec_add u v)) = r" by (simp add: mat_vec_length[OF assms(1)])
  show "length (vec_add (mat_vec A u) (mat_vec A v)) = r"
    by (simp add: vec_add_length mat_vec_length[OF assms(1)])
  fix i assume i: "i < r"
  show "mat_vec A (vec_add u v) ! i = vec_add (mat_vec A u) (mat_vec A v) ! i"
    using assms i
    by (simp add: mat_vec_nth[OF assms(1)] vec_add_length vec_add_nth[of _ c]
        vec_add_nth[of _ r] mat_vec_length[OF assms(1)] distrib_left sum.distrib)
qed

lemma dot_add_left: "length u = n \<Longrightarrow> length v = n \<Longrightarrow> length w = n \<Longrightarrow>
  dot (vec_add u v) w = dot u w + dot v w"
  by (simp add: dot_sum[of _ n] vec_add_length vec_add_nth[of _ n] distrib_right sum.distrib)

lemma dot_self_nonneg: "0 \<le> dot g g"
  by (simp add: dot_sum[of g "length g"] sum_nonneg)

lemma dot_self_zero: assumes "dot g g = 0" shows "g = replicate (length g) 0"
proof (rule vec_eqI[of _ "length g"])
  show "length g = length g" by simp
  show "length (replicate (length g) (0::real)) = length g" by simp
  fix i assume i: "i < length g"
  have "(\<Sum>k<length g. g ! k * g ! k) = 0"
    using assms by (simp add: dot_sum[of g "length g"])
  then have "\<forall>k\<in>{..<length g}. g ! k * g ! k = 0"
    by (subst (asm) sum_nonneg_eq_0_iff) auto
  with i show "g ! i = replicate (length g) 0 ! i" by simp
qed

lemma mat_vec_zero: "mat r c A \<Longrightarrow> mat_vec A (replicate c 0) = replicate r 0"
  by (rule vec_eqI[of _ r]) (simp_all add: mat_vec_length mat_vec_nth)

lemma dot_zero_left: "length v = n \<Longrightarrow> dot (replicate n 0) v = 0"
  by (simp add: dot_sum[of _ n])

lemma psd_quad_zero:
  assumes M: "psd n M" and w: "length w = n" and z: "quad M w = 0"
  shows "mat_vec M w = replicate n 0"
proof -
  note Mm = psd_mat[OF M]
  define g where "g = mat_vec M w"
  define a where "a = dot g g"
  define q where "q = quad M g"
  define t where "t = - a / (q + 1)"
  have lg: "length g = n" by (simp add: g_def mat_vec_length[OF Mm])
  have q0: "0 \<le> q" unfolding q_def by (rule psd_quad[OF M lg])
  have a0: "0 \<le> a" unfolding a_def by (rule dot_self_nonneg)
  let ?tg = "map ((*) t) g"
  have ltg: "length ?tg = n" by (simp add: lg)
  have lMg: "length (mat_vec M g) = n" by (simp add: mat_vec_length[OF Mm])
  have lMtg: "length (map ((*) t) (mat_vec M g)) = n" by (simp add: lMg)
  have wMg: "dot w (mat_vec M g) = a"
    unfolding a_def using sym_self_adjoint[OF Mm psd_sym[OF M] w lg] by (simp add: g_def)
  have tgg: "dot ?tg g = t * a"
    using dot_comm[of ?tg g] dot_scale_right[of g g t] lg by (simp add: a_def)
  have tgMg: "dot ?tg (map ((*) t) (mat_vec M g)) = t * (t * q)"
  proof -
    have "dot ?tg (map ((*) t) (mat_vec M g)) = t * dot ?tg (mat_vec M g)"
      by (rule dot_scale_right) (simp add: lg lMg)
    also have "dot ?tg (mat_vec M g) = dot (mat_vec M g) ?tg"
      by (rule dot_comm) (simp add: lg lMg)
    also have "\<dots> = t * dot (mat_vec M g) g"
      by (rule dot_scale_right) (simp add: lg lMg)
    also have "dot (mat_vec M g) g = q"
      unfolding q_def quad_def by (rule dot_comm) (simp add: lg lMg)
    finally show ?thesis .
  qed
  have "mat_vec M (vec_add w ?tg) = vec_add (mat_vec M w) (mat_vec M ?tg)"
    by (rule mat_vec_vec_add[OF Mm w ltg])
  also have "mat_vec M ?tg = map ((*) t) (mat_vec M g)"
    by (rule mat_vec_scale[OF Mm lg])
  also have "mat_vec M w = g" by (simp add: g_def)
  finally have "quad M (vec_add w ?tg) = dot (vec_add w ?tg) (vec_add g (map ((*) t) (mat_vec M g)))"
    unfolding quad_def by simp
  also have "\<dots> = dot w (vec_add g (map ((*) t) (mat_vec M g))) +
      dot ?tg (vec_add g (map ((*) t) (mat_vec M g)))"
    by (rule dot_add_left[OF w ltg]) (simp add: vec_add_length[OF lg lMtg])
  also have "dot w (vec_add g (map ((*) t) (mat_vec M g))) = dot w g + dot w (map ((*) t) (mat_vec M g))"
    by (rule dot_add_right[OF w lg lMtg])
  also have "dot ?tg (vec_add g (map ((*) t) (mat_vec M g))) =
      dot ?tg g + dot ?tg (map ((*) t) (mat_vec M g))"
    by (rule dot_add_right[OF ltg lg lMtg])
  also have "dot w g = 0" using z by (simp add: quad_def g_def)
  also have "dot w (map ((*) t) (mat_vec M g)) = t * a"
    using dot_scale_right[of w "mat_vec M g" t] w lMg wMg by simp
  finally have "quad M (vec_add w ?tg) = 2 * t * a + t * t * q"
    by (simp add: tgg tgMg)
  moreover have "0 \<le> quad M (vec_add w ?tg)"
    by (rule psd_quad[OF M]) (simp add: vec_add_length[OF w ltg])
  ultimately have ineq: "0 \<le> 2 * t * a + t * t * q" by simp
  have q1: "0 < q + 1" using q0 by simp
  have tq: "t * (q + 1) = - a" unfolding t_def using q1 by simp
  have "(2 * t * a + t * t * q) * ((q + 1) * (q + 1)) =
      2 * (t * (q + 1)) * a * (q + 1) + (t * (q + 1)) * (t * (q + 1)) * q"
    by (simp add: algebra_simps)
  also have "\<dots> = - (a * a) * (q + 2)"
    unfolding tq by (simp add: algebra_simps)
  finally have "- (a * a) * (q + 2) = (2 * t * a + t * t * q) * ((q + 1) * (q + 1))" by simp
  moreover have "0 \<le> (2 * t * a + t * t * q) * ((q + 1) * (q + 1))"
    using ineq q1 by (intro mult_nonneg_nonneg) auto
  ultimately have "0 \<le> - (a * a) * (q + 2)" by simp
  moreover have "0 < q + 2" using q0 by simp
  ultimately have "a * a \<le> 0"
    by (simp add: mult_le_0_iff zero_le_mult_iff) 
  then have "a = 0" using a0
    by (metis mult_eq_0_iff mult_nonneg_nonneg order_antisym)
  then have "g = replicate (length g) 0"
    unfolding a_def by (rule dot_self_zero)
  then show ?thesis by (simp add: g_def[symmetric] lg)
qed

lemma spd_pos:
  assumes S: "psd k S" and Si: "inverse_of k S Si" and w: "length w = k"
    and nz: "w \<noteq> replicate k 0"
  shows "0 < quad S w"
proof (rule ccontr)
  assume "\<not> 0 < quad S w"
  with psd_quad[OF S w] have "quad S w = 0" by simp
  then have "mat_vec S w = replicate k 0" by (rule psd_quad_zero[OF S w])
  then have "mat_vec Si (mat_vec S w) = replicate k 0"
    using Si by (simp add: mat_vec_zero inverse_of_def)
  then have "w = replicate k 0"
    by (simp add: inverse_apply_left[OF psd_mat[OF S] Si w])
  with nz show False by simp
qed

lemma zero_mat_mat: "0 < r \<Longrightarrow> 0 < c \<Longrightarrow> mat r c (zero_mat r c)"
  by (intro matI) (simp_all add: zero_mat_def)

lemma kalman_gain_zero:
  assumes H: "mat k n H" and Sig: "psd n Sig" and Si: "mat k k Si"
    and z: "\<And>i. i < n \<Longrightarrow> mat_vec H (mat_vec Sig (unit n i)) = replicate k 0"
  shows "kalman_gain H Sig Si = zero_mat n k"
proof (rule mat_eqI[of n k])
  note Sm = psd_mat[OF Sig]
  note K = kalman_gain_mat[OF H Sm Si]
  have Ht: "mat n k (T H)" by (rule T_mat[OF H])
  show "mat n k (kalman_gain H Sig Si)" by (rule K)
  show "mat n k (zero_mat n k)" using mat_pos[OF H] by (simp add: zero_mat_mat)
  fix i j assume ij: "i < n" "j < k"
  let ?y = "mat_vec Si (unit k j)"
  have ly: "length ?y = k" by (simp add: mat_vec_length[OF Si])
  have lt: "length (mat_vec (T H) ?y) = n" by (simp add: mat_vec_length[OF Ht])
  have "kalman_gain H Sig Si ! i ! j = dot (unit n i) (mat_vec (kalman_gain H Sig Si) (unit k j))"
    using ij by (simp add: mat_vec_unit[OF K] dot_unit mat_length[OF K] col_nth)
  also have "\<dots> = dot (unit n i) (mat_vec Sig (mat_vec (T H) ?y))"
    by (simp add: kalman_gain_apply[OF H Sm Si])
  also have "\<dots> = dot (mat_vec Sig (unit n i)) (mat_vec (T H) ?y)"
    by (rule sym_self_adjoint[OF Sm psd_sym[OF Sig] _ lt]) simp
  also have "\<dots> = dot (mat_vec H (mat_vec Sig (unit n i))) ?y"
    by (rule dot_T_mat_vec[OF H _ ly]) (simp add: mat_vec_length[OF Sm])
  also have "\<dots> = 0"
    by (simp add: z[OF ij(1)] dot_zero_left[OF ly])
  finally show "kalman_gain H Sig Si ! i ! j = zero_mat n k ! i ! j"
    using ij by (simp add: zero_mat_def)
qed

lemma reduction_trace_pos:
  assumes H: "mat k n H" and R: "psd k R" and Sig: "psd n Sig"
    and Si: "inverse_of k (residual_covariance H R Sig) Si"
    and nz: "kalman_gain H Sig Si \<noteq> zero_mat n k"
  shows "0 < trace (mat_mul (mat_mul (kalman_gain H Sig Si) H) Sig)"
proof -
  note Sm = psd_mat[OF Sig]
  note S = residual_covariance_psd[OF H R Sig]
  have Sim: "mat k k Si" using Si by (simp add: inverse_of_def)
  note D = reduction_psd[OF H R Sig Si]
  obtain i where i: "i < n" and yi: "mat_vec H (mat_vec Sig (unit n i)) \<noteq> replicate k 0"
    using kalman_gain_zero[OF H Sig Sim] nz by blast
  let ?y = "mat_vec H (mat_vec Sig (unit n i))"
  have ly: "length ?y = k" by (simp add: mat_vec_length[OF H])
  have lw: "length (mat_vec Si ?y) = k" by (simp add: mat_vec_length[OF Sim])
  have wnz: "mat_vec Si ?y \<noteq> replicate k 0"
  proof
    assume "mat_vec Si ?y = replicate k 0"
    then have "mat_vec (residual_covariance H R Sig) (mat_vec Si ?y) = replicate k 0"
      by (simp add: mat_vec_zero[OF psd_mat[OF S]])
    then show False
      using yi by (simp add: inverse_apply_right[OF psd_mat[OF S] Si ly])
  qed
  have "quad (mat_mul (mat_mul (kalman_gain H Sig Si) H) Sig) (unit n i) = dot ?y (mat_vec Si ?y)"
    unfolding quad_def by (rule reduction_bilinear[OF H Sig Sim]) simp_all
  also have "\<dots> = quad (residual_covariance H R Sig) (mat_vec Si ?y)"
    by (rule inverse_quad[OF S Si ly])
  finally have pos: "0 < quad (mat_mul (mat_mul (kalman_gain H Sig Si) H) Sig) (unit n i)"
    using spd_pos[OF S Si lw wnz] by simp
  have "0 < (\<Sum>i<n. quad (mat_mul (mat_mul (kalman_gain H Sig Si) H) Sig) (unit n i))"
    by (rule sum_pos2[where i=i]) (use i pos psd_quad[OF D] in auto)
  then show ?thesis by (simp add: trace_quad[OF psd_mat[OF D]])
qed

lemma vec_sub_self: "vec_sub v v = replicate (length v) 0"
  by (rule vec_eqI[of _ "length v"]) (simp_all add: vec_sub_def)

lemma vec_add_zero: "length v = n \<Longrightarrow> vec_add v (replicate n 0) = v"
  by (rule vec_eqI[of _ n]) (simp_all add: vec_add_def)

lemma predicted_covariance_psd:
  assumes "mat n n A" "psd n Q" "psd n Sig"
  shows "psd n (mat_add (mat_mul (mat_mul A Sig) (T A)) Q)"
  using residual_covariance_psd[OF assms] by (simp add: residual_covariance_def)

lemma update_loewner:
  assumes H: "mat k n H" and R: "psd k R" and Sig: "psd n Sig"
    and Si: "inverse_of k (residual_covariance H R Sig) Si"
  shows "loewner_le n (mat_sub Sig (mat_mul (mat_mul (kalman_gain H Sig Si) H) Sig)) Sig"
  unfolding loewner_le_def
  using reduction_psd[OF H R Sig Si]
  by (simp add: mat_sub_sub[OF psd_mat[OF Sig] psd_mat[OF reduction_psd[OF H R Sig Si]]])

lemma update_trace:
  assumes H: "mat k n H" and R: "psd k R" and Sig: "psd n Sig"
    and Si: "inverse_of k (residual_covariance H R Sig) Si"
  shows "trace (mat_sub Sig (mat_mul (mat_mul (kalman_gain H Sig Si) H) Sig)) =
    trace Sig - trace (mat_mul (mat_mul (kalman_gain H Sig Si) H) Sig)"
  by (rule trace_sub[OF psd_mat[OF Sig] psd_mat[OF reduction_psd[OF H R Sig Si]]])

lemma psd_diag2: assumes "0 \<le> a" "0 \<le> b" shows "psd 2 [[a, 0], [0, b]]"
proof -
  have "0 \<le> quad [[a, 0], [0, b]] v" if "length v = 2" for v
  proof -
    from that obtain x y where v: "v = [x, y]"
      by (auto simp: numeral_2_eq_2 length_Suc_conv)
    have "quad [[a, 0], [0, b]] v = a * (x * x) + b * (y * y)"
      by (simp add: v quad_def mat_vec_def dot_def algebra_simps)
    then show ?thesis using assms by simp
  qed
  then show ?thesis
    by (simp add: psd_def mat22I vec_def T_def ncols_def col_def upt2)
qed

lemma T22: "T [[a, b], [c, d]] = [[a, c], [b, d]]"
  by (simp add: T_def ncols_def col_def upt2)

lemma mat_add22: "mat_add [[a, b], [c, d]] [[p, q], [r, s]] = [[a + p, b + q], [c + r, d + s]]"
  by (simp add: mat_add_def vec_add_def)

lemma mat_sub22: "mat_sub [[a, b], [c, d]] [[p, q], [r, s]] = [[a - p, b - q], [c - r, d - s]]"
  by (simp add: mat_sub_def vec_sub_def)

lemma mat_vec22: "mat_vec [[a, b], [c, d]] [x, y] = [a * x + b * y, c * x + d * y]"
  by (simp add: mat_vec_def dot_def)

subsection \<open>The rounded LU factorisation at a singular matrix\<close>

lemma two_powr_nat: "(2::real) powr real n = 2 ^ n"
  by (simp add: powr_realpow)

lemma two_powr_neg_nat: "(2::real) powr (- real n) = 1 / 2 ^ n"
  by (simp add: powr_minus powr_realpow divide_inverse)

lemma fl64_exponent:
  assumes "2 powr real_of_int e \<le> \<bar>x\<bar>" "\<bar>x\<bar> < 2 powr real_of_int (e + 1)"
  shows "fl64 x = real_of_int (round (x / 2 powr (real_of_int e - 52))) * 2 powr (real_of_int e - 52)"
proof -
  have pos: "0 < \<bar>x\<bar>" using assms(1) by (smt (verit) powr_gt_zero)
  then have nz: "x \<noteq> 0" by simp
  have "\<lfloor>log 2 \<bar>x\<bar>\<rfloor> = e"
    using assms pos by (subst floor_log_eq_powr_iff) simp_all
  then show ?thesis using nz by (simp add: fl64_def)
qed

lemma fl64_recip49: "fl64 (1 / 49) = 5882252574524729 / 2 ^ 58"
proof -
  have a: "2 powr real_of_int (- 6) \<le> \<bar>1 / 49 :: real\<bar>"
    using two_powr_neg_nat[of 6] by simp
  have b: "\<bar>1 / 49 :: real\<bar> < 2 powr real_of_int (- 6 + 1)"
    using two_powr_neg_nat[of 5] by simp
  have u: "(2::real) powr (real_of_int (- 6) - 52) = 1 / 2 ^ 58"
    using two_powr_neg_nat[of 58] by simp
  show ?thesis
    unfolding fl64_exponent[OF a b] u by (simp add: round_def)
qed

lemma fl64_product: "fl64 (5882252574524729 / 2 ^ 58 * 2401) = 49 - 1 / 2 ^ 47"
proof -
  have a: "2 powr real_of_int 5 \<le> \<bar>5882252574524729 / 2 ^ 58 * 2401 :: real\<bar>"
    using two_powr_nat[of 5] by simp
  have b: "\<bar>5882252574524729 / 2 ^ 58 * 2401 :: real\<bar> < 2 powr real_of_int (5 + 1)"
    using two_powr_nat[of 6] by simp
  have u: "(2::real) powr (real_of_int 5 - 52) = 1 / 2 ^ 47"
    using two_powr_neg_nat[of 47] by simp
  show ?thesis
    unfolding fl64_exponent[OF a b] u by (simp add: round_def)
qed

lemma fl64_pivot: "fl64 (49 - (49 - 1 / 2 ^ 47)) = 1 / 2 ^ 47"
proof -
  have a: "2 powr real_of_int (- 47) \<le> \<bar>49 - (49 - 1 / 2 ^ 47) :: real\<bar>"
    using two_powr_neg_nat[of 47] by simp
  have b: "\<bar>49 - (49 - 1 / 2 ^ 47) :: real\<bar> < 2 powr real_of_int (- 47 + 1)"
    using two_powr_neg_nat[of 46] by simp
  have u: "(2::real) powr (real_of_int (- 47) - 52) = 1 / 2 ^ 99"
    using two_powr_neg_nat[of 99] by simp
  show ?thesis
    unfolding fl64_exponent[OF a b] u by (simp add: round_def)
qed

lemma fl64_multiplier: "fl64 (1 * (5882252574524729 / 2 ^ 58)) = 5882252574524729 / 2 ^ 58"
proof -
  have a: "2 powr real_of_int (- 6) \<le> \<bar>1 * (5882252574524729 / 2 ^ 58) :: real\<bar>"
    using two_powr_neg_nat[of 6] by simp
  have b: "\<bar>1 * (5882252574524729 / 2 ^ 58) :: real\<bar> < 2 powr real_of_int (- 6 + 1)"
    using two_powr_neg_nat[of 5] by simp
  have u: "(2::real) powr (real_of_int (- 6) - 52) = 1 / 2 ^ 58"
    using two_powr_neg_nat[of 58] by simp
  show ?thesis
    unfolding fl64_exponent[OF a b] u by (simp add: round_def)
qed

lemma lu_inverse_singular:
  "lu_inverse True 49 2401 1 49 =
     inv2 [[5882252574524729 / 2 ^ 58 * 49, 5882252574524729 / 2 ^ 58 * 2401 + 1 / 2 ^ 47],
           [49, 2401]]"
  unfolding lu_inverse_def Let_def fl64_recip49 fl64_multiplier fl64_product fl64_pivot by simp

lemma inv2_lu_returns:
  "inv2_lu [[1, 49], [49, 2401]] =
     Inr [[- 6896136929411072, 14123288431433876377 / 100352],
          [140737488355328, - 5882252574524729 / 2048]]"
  by (simp add: inv2_lu_def lu_inverse_singular inv2_def)

lemma residual_covariance_id22:
  "residual_covariance [[1, 0], [0, 1]] [[r1, r2], [r3, r4]] [[a, b], [c, d]] =
     [[a + r1, b + r2], [c + r3, d + r4]]"
  by (simp add: residual_covariance_def mat_mul22 T22 mat_add22)


lemma residual_covariance22:
  "residual_covariance [[1, 0], [0, 1]] [[r1, 0], [0, r2]] [[s1, 0], [0, s2]] =
     [[s1 + r1, 0], [0, s2 + r2]]"
  by (simp add: residual_covariance_def mat_mul22 T22 mat_add22)

section \<open>Properties of the particle filter notebook\<close>

subsection \<open>The methods of a particle\<close>

lemma vadd_Inr: "vadd u v = Inr w \<Longrightarrow> length u = length v \<and> w = vec_add u v"
  by (simp add: vadd_def split: if_splits)

lemma vsub_Inr: "vsub u v = Inr w \<Longrightarrow> length u = length v \<and> w = vec_sub u v"
  by (simp add: vsub_def split: if_splits)

lemma Particle_predict_Inr:
  assumes "Particle_predict h self u_t noise = Inr h'"
  shows "h' = h[self := (h ! self)\<lparr>state := vec_add (vec_add (state (h ! self)) u_t) noise\<rparr>]"
proof -
  obtain moved where m: "vadd (state (h ! self)) u_t = Inr moved"
    using assms by (cases "vadd (state (h ! self)) u_t") (simp_all add: Particle_predict_def)
  obtain new_state where n: "vadd moved noise = Inr new_state"
    using assms m by (cases "vadd moved noise") (simp_all add: Particle_predict_def)
  from assms m n have "h' = h[self := (h ! self)\<lparr>state := new_state\<rparr>]"
    by (simp add: Particle_predict_def)
  with vadd_Inr[OF m] vadd_Inr[OF n] show ?thesis by simp
qed

lemma Particle_update_Inr:
  assumes "Particle_update h self z_t = Inr h'"
  shows "h' = h[self := (h ! self)\<lparr>weight :=
           fdiv (Fin 1) (Fin (norm2 (vec_sub (state (h ! self)) z_t)))\<rparr>]"
proof -
  obtain d where d: "vsub (state (h ! self)) z_t = Inr d"
    using assms by (cases "vsub (state (h ! self)) z_t") (simp_all add: Particle_update_def)
  from assms d have "h' = h[self := (h ! self)\<lparr>weight := fdiv (Fin 1) (Fin (norm2 d))\<rparr>]"
    by (simp add: Particle_update_def Let_def del: fdiv.simps)
  with vsub_Inr[OF d] show ?thesis by simp
qed

lemma sum_squares_zero: "sum_list (map (\<lambda>x. x * x) (v::real list)) = 0 \<longleftrightarrow> (\<forall>x\<in>set v. x = 0)"
proof (induction v)
  case Nil
  then show ?case by simp
next
  case (Cons a v)
  have "0 \<le> sum_list (map (\<lambda>x. x * x) v)"
    by (rule sum_list_nonneg) auto
  moreover have "0 \<le> a * a" by simp
  ultimately have "a * a + sum_list (map (\<lambda>x. x * x) v) = 0 \<longleftrightarrow> a * a = 0 \<and> sum_list (map (\<lambda>x. x * x) v) = 0"
    by (simp add: add_nonneg_eq_0_iff)
  with Cons show ?case by simp
qed

lemma sum_squares_nonneg: "0 \<le> sum_list (map (\<lambda>x. x * x) (v::real list))"
  by (rule sum_list_nonneg) auto

lemma norm2_nonneg: "0 \<le> norm2 v"
  by (simp add: norm2_def sum_squares_nonneg)

lemma norm2_zero: "norm2 v = 0 \<longleftrightarrow> (\<forall>x\<in>set v. x = 0)"
  by (simp add: norm2_def sum_squares_zero)

lemma vec_sub_zero:
  assumes "length u = length v"
  shows "(\<forall>x\<in>set (vec_sub u v). x = 0) \<longleftrightarrow> u = v"
proof
  assume z: "\<forall>x\<in>set (vec_sub u v). x = 0"
  show "u = v"
  proof (rule nth_equalityI[OF assms])
    fix i assume i: "i < length u"
    then have "vec_sub u v ! i \<in> set (vec_sub u v)"
      using assms by (intro nth_mem) (simp add: vec_sub_def)
    with z have "vec_sub u v ! i = 0" by blast
    then show "u ! i = v ! i" using i assms by (simp add: vec_sub_def)
  qed
next
  assume "u = v"
  then show "\<forall>x\<in>set (vec_sub u v). x = 0"
    by (auto simp: vec_sub_def set_zip)
qed

lemma inverse_distance:
  assumes "length s = length z"
  shows "fdiv (Fin 1) (Fin (norm2 (vec_sub s z))) =
     (if s = z then PInf else Fin (1 / norm2 (vec_sub s z)))"
  using vec_sub_zero[OF assms] by (simp add: norm2_zero)

lemma Particle_update_ok:
  assumes "length (state (h ! self)) = length z_t"
  shows "Particle_update h self z_t =
     Inr (h[self := (h ! self)\<lparr>weight :=
        (if state (h ! self) = z_t then PInf
         else Fin (1 / norm2 (vec_sub (state (h ! self)) z_t)))\<rparr>])"
  using assms by (simp add: Particle_update_def vsub_def Let_def inverse_distance del: fdiv.simps)

lemma sqrt25: "sqrt 25 = 5"
  by (rule real_sqrt_unique) simp_all

lemma predict_example:
  "Particle_predict [Particle 4 6 (Fin 1), Particle 0 0 (Fin 2)] 0 [1, 2] [1/100, 0] =
     Inr [\<lparr>state = [501/100, 8], weight = Fin 1\<rparr>, Particle 0 0 (Fin 2)]"
  by (simp add: Particle_predict_def Particle_def vadd_def vec_add_def)

lemma update_example:
  "Particle_update [Particle 4 6 (Fin 1), Particle 0 0 (Fin 2)] 0 [1, 2] =
     Inr [\<lparr>state = [4, 6], weight = Fin (1/5)\<rparr>, Particle 0 0 (Fin 2)]"
  by (simp add: Particle_update_def Particle_def vsub_def vec_sub_def norm2_def sqrt25)

subsection \<open>Weights, normalisation and the index draw\<close>

lemma is_finite_fadd: "is_finite (fadd x y) \<longleftrightarrow> is_finite x \<and> is_finite y"
  by (cases x; cases y) (simp_all add: is_finite_def)

lemma is_finite_np_sum: "is_finite (np_sum p) \<longleftrightarrow> (\<forall>x\<in>set p. is_finite x)"
  by (induction p) (simp_all add: is_finite_fadd, simp add: is_finite_def)

lemma is_finite_Fin: "is_finite x \<longleftrightarrow> (\<exists>a. x = Fin a)"
  by (cases x) (simp_all add: is_finite_def)

lemma far_from_one_not_finite: "\<not> is_finite s \<Longrightarrow> far_from_one s"
  by (cases s) (simp_all add: is_finite_def far_from_one_def)

lemma fdiv_zero_not_finite: "\<not> is_finite (fdiv w (Fin 0))"
  by (cases w) (simp_all add: is_finite_def)

lemma fdiv_not_finite: "\<not> is_finite w \<Longrightarrow> \<not> is_finite s \<Longrightarrow> fdiv w s = NaN"
  by (cases w; cases s) (simp_all add: is_finite_def)

lemma fdiv_Fin: "s \<noteq> 0 \<Longrightarrow> fdiv (Fin a) (Fin s) = Fin (a / s)"
  by simp

lemma normalize_degenerate:
  assumes "np_sum ws = Fin 0 \<or> \<not> is_finite (np_sum ws)"
  shows "far_from_one (np_sum (normalize_weights ws))"
proof (cases "ws = []")
  case True
  then show ?thesis by (simp add: normalize_weights_def far_from_one_def)
next
  case False
  have "\<exists>x\<in>set (normalize_weights ws). \<not> is_finite x"
  proof (cases "np_sum ws = Fin 0")
    case True
    from False obtain w where "w \<in> set ws" by (cases ws) auto
    then have "fdiv w (np_sum ws) \<in> set (normalize_weights ws)" by (simp add: normalize_weights_def)
    with True fdiv_zero_not_finite[of w] show ?thesis by auto
  next
    case False
    with assms have nf: "\<not> is_finite (np_sum ws)" by simp
    then obtain w where w: "w \<in> set ws" "\<not> is_finite w"
      by (auto simp: is_finite_np_sum)
    then have "fdiv w (np_sum ws) \<in> set (normalize_weights ws)" by (simp add: normalize_weights_def)
    with fdiv_not_finite[OF w(2) nf] have "NaN \<in> set (normalize_weights ws)" by simp
    then show ?thesis by (intro bexI[of _ NaN]) (simp_all add: is_finite_def)
  qed
  then have "\<not> is_finite (np_sum (normalize_weights ws))" by (simp add: is_finite_np_sum)
  then show ?thesis by (rule far_from_one_not_finite)
qed

lemma np_choice_rejects: "far_from_one (np_sum p) \<Longrightarrow> np_choice a n p draws = Inl ValueError"
  by (simp add: np_choice_def)

lemma np_choice_Inr: "np_choice a n p draws = Inr idx \<Longrightarrow> idx = draws \<and> length p = a"
  by (simp add: np_choice_def split: if_splits)

lemma np_choice_Inl: "np_choice a n p draws = Inl e \<Longrightarrow> e = ValueError"
  by (simp add: np_choice_def split: if_splits)

lemma normalize_nth:
  assumes "np_sum ws = Fin s" "s \<noteq> 0" "i < length ws"
  shows "\<exists>a. ws ! i = Fin a \<and> normalize_weights ws ! i = Fin (a / s)"
proof -
  have "is_finite (np_sum ws)" using assms(1) by (simp add: is_finite_def)
  then have "is_finite (ws ! i)" using assms(3) by (simp add: is_finite_np_sum)
  then obtain a where "ws ! i = Fin a" by (auto simp: is_finite_Fin)
  then show ?thesis using assms by (simp add: normalize_weights_def)
qed

lemma resample_rejected:
  assumes "np_choice M M (normalize_weights (weights_of h particles)) draws = Inl e"
  shows "resample M alpha draws fresh h particles = Inl e"
  using assms by (simp add: resample_def Let_def)

lemma keep_loop_upt:
  assumes "K \<le> length idx" and "\<forall>j<K. idx ! j < length ps" and "K \<le> length ps" and "a \<le> K"
  shows "\<exists>ps'. keep_loop [a..<K] idx ps = Inr ps' \<and> length ps' = length ps \<and>
      set ps' \<subseteq> set ps \<and>
      (\<forall>j. j < a \<or> K \<le> j \<longrightarrow> ps' ! j = ps ! j) \<and>
      (\<forall>j. a \<le> j \<and> j < K \<longrightarrow>
         ps' ! j = (if idx ! j < j then ps' ! (idx ! j) else ps ! (idx ! j)))"
  using assms
proof (induction "K - a" arbitrary: a ps)
  case 0
  then have "[a..<K] = []" by simp
  then show ?case using 0 by simp
next
  case (Suc n)
  then have aK: "a < K" by simp
  let ?ps1 = "ps[a := ps ! (idx ! a)]"
  have step: "keep_loop [a..<K] idx ps = keep_loop [Suc a..<K] idx ?ps1"
    using aK Suc.prems by (simp add: upt_conv_Cons Let_def)
  have "n = K - Suc a" using Suc.hyps(2) by simp
  moreover have "\<forall>j<K. idx ! j < length ?ps1" using Suc.prems by simp
  moreover have "K \<le> length ?ps1" using Suc.prems by simp
  moreover have "Suc a \<le> K" using aK by simp
  ultimately obtain ps' where r: "keep_loop [Suc a..<K] idx ?ps1 = Inr ps'"
    and l: "length ps' = length ?ps1" and s: "set ps' \<subseteq> set ?ps1"
    and u: "\<forall>j. j < Suc a \<or> K \<le> j \<longrightarrow> ps' ! j = ?ps1 ! j"
    and c: "\<forall>j. Suc a \<le> j \<and> j < K \<longrightarrow>
         ps' ! j = (if idx ! j < j then ps' ! (idx ! j) else ?ps1 ! (idx ! j))"
    using Suc.hyps(1)[of "Suc a" ?ps1] Suc.prems(1) by blast
  have ia: "idx ! a < length ps" using Suc.prems aK by simp
  have al: "a < length ps" using Suc.prems aK by simp
  have s1: "set ?ps1 \<subseteq> set ps"
    using set_update_subset_insert[of ps a "ps ! (idx ! a)"] ia by auto
  have u': "\<forall>j. j < a \<or> K \<le> j \<longrightarrow> ps' ! j = ps ! j"
    using u aK by auto
  have pa: "ps' ! a = ps ! (idx ! a)" using u al by simp
  have c': "ps' ! j = (if idx ! j < j then ps' ! (idx ! j) else ps ! (idx ! j))"
    if j: "a \<le> j \<and> j < K" for j
  proof (cases "j = a")
    case True
    show ?thesis
    proof (cases "idx ! a < a")
      case True
      with u' have "ps' ! (idx ! a) = ps ! (idx ! a)" by simp
      with pa True \<open>j = a\<close> show ?thesis by simp
    next
      case False
      with pa \<open>j = a\<close> show ?thesis by simp
    qed
  next
    case False
    with j have j': "Suc a \<le> j \<and> j < K" by simp
    show ?thesis
    proof (cases "idx ! j < j")
      case True
      with c j' show ?thesis by simp
    next
      case False
      with j' have "idx ! j \<noteq> a" by simp
      with c j' False show ?thesis by simp
    qed
  qed
  show ?case
    using step r l s s1 u' c' by auto
qed

lemma py_index_nat: "i < n \<Longrightarrow> py_index n (int i) = Some i"
  by (simp add: py_index_def)

lemma inject_loop_upt:
  assumes "K + n \<le> length ps" and "a \<le> n"
  shows "\<exists>ps'. inject_loop [a..<n] (int K) fresh h ps =
        Inr (h @ map (\<lambda>j. Particle (fst (fresh j)) (snd (fresh j)) (Fin 0)) [a..<n], ps') \<and>
      length ps' = length ps \<and>
      (\<forall>i. i < K + a \<or> K + n \<le> i \<longrightarrow> ps' ! i = ps ! i) \<and>
      (\<forall>j. a \<le> j \<and> j < n \<longrightarrow> ps' ! (K + j) = length h + (j - a))"
  using assms
proof (induction "n - a" arbitrary: a h ps)
  case 0
  then have "[a..<n] = []" by simp
  then show ?case using 0 by simp
next
  case (Suc d)
  then have an: "a < n" by simp
  let ?h1 = "h @ [Particle (fst (fresh a)) (snd (fresh a)) (Fin 0)]"
  let ?ps1 = "ps[K + a := length h]"
  have idx: "py_index (length ps) (int K + int a) = Some (K + a)"
    using py_index_nat[of "K + a" "length ps"] an Suc.prems by simp
  have step: "inject_loop [a..<n] (int K) fresh h ps = inject_loop [Suc a..<n] (int K) fresh ?h1 ?ps1"
    using an by (simp add: upt_conv_Cons Let_def idx)
  have "d = n - Suc a" using Suc.hyps(2) by simp
  moreover have "K + n \<le> length ?ps1" using Suc.prems by simp
  moreover have "Suc a \<le> n" using an by simp
  ultimately obtain ps' where
    r: "inject_loop [Suc a..<n] (int K) fresh ?h1 ?ps1 =
        Inr (?h1 @ map (\<lambda>j. Particle (fst (fresh j)) (snd (fresh j)) (Fin 0)) [Suc a..<n], ps')"
    and l: "length ps' = length ?ps1"
    and u: "\<forall>i. i < K + Suc a \<or> K + n \<le> i \<longrightarrow> ps' ! i = ?ps1 ! i"
    and c: "\<forall>j. Suc a \<le> j \<and> j < n \<longrightarrow> ps' ! (K + j) = length ?h1 + (j - Suc a)"
    using Suc.hyps(1)[of "Suc a" ?ps1 ?h1] by blast
  have hh: "?h1 @ map (\<lambda>j. Particle (fst (fresh j)) (snd (fresh j)) (Fin 0)) [Suc a..<n] =
      h @ map (\<lambda>j. Particle (fst (fresh j)) (snd (fresh j)) (Fin 0)) [a..<n]"
    using an by (simp add: upt_conv_Cons)
  have u': "\<forall>i. i < K + a \<or> K + n \<le> i \<longrightarrow> ps' ! i = ps ! i"
    using u an by auto
  have c': "ps' ! (K + j) = length h + (j - a)" if j: "a \<le> j \<and> j < n" for j
  proof (cases "j = a")
    case True
    then show ?thesis using u Suc.prems an by simp
  next
    case False
    with j have j': "Suc a \<le> j \<and> j < n" by simp
    with c have "ps' ! (K + j) = length ?h1 + (j - Suc a)" by blast
    also have "\<dots> = length h + (j - a)" using j' by auto
    finally show ?thesis .
  qed
  show ?case
    using step r hh l u' c' by auto
qed

subsection \<open>The resampling step\<close>

lemma py_int_nonneg: "0 \<le> x \<Longrightarrow> py_int x = int (nat \<lfloor>x\<rfloor>)"
  by (simp add: py_int_def)

lemma kept_le:
  assumes "0 \<le> alpha" "alpha \<le> 1"
  shows "nat \<lfloor>real M * alpha\<rfloor> \<le> M"
proof -
  have "real M * alpha \<le> real M * 1"
    using assms by (intro mult_left_mono) auto
  then have "\<lfloor>real M * alpha\<rfloor> \<le> \<lfloor>real M\<rfloor>" by (intro floor_mono) simp
  then show ?thesis by simp
qed

lemmas resample_eval =
  resample_def weights_of_def normalize_weights_def np_choice_def is_negative_def
  far_from_one_def py_int_def py_range_def py_index_def Particle_def Let_def upt_conv_Cons

lemma resample_degenerate:
  assumes "np_sum (weights_of h particles) = Fin 0 \<or> \<not> is_finite (np_sum (weights_of h particles))"
  shows "np_choice M M (normalize_weights (weights_of h particles)) draws = Inl ValueError \<and>
     resample M alpha draws fresh h particles = Inl ValueError"
proof -
  have c: "np_choice M M (normalize_weights (weights_of h particles)) draws = Inl ValueError"
    by (rule np_choice_rejects[OF normalize_degenerate[OF assms]])
  from c resample_rejected[OF c] show ?thesis by simp
qed

lemma weights_of_nth:
  "i < length particles \<Longrightarrow> weights_of h particles ! i = weight (h ! (particles ! i))"
  by (simp add: weights_of_def)

section \<open>Claims about the Kalman filter\<close>

text \<open>
  Claim C2. For a belief \<open>(mu, Sig)\<close> and a control \<open>u\<close> of the configured dimensions
  (state dimension \<open>n\<close>, control dimension \<open>m\<close>), \<open>predict\<close> returns the mean
  \<open>A mu + B u\<close> and the covariance \<open>A Sig A\<^sup>T + Q\<close>, where \<open>Q\<close> is the process-noise
  covariance.
\<close>

theorem predict_computes:
  assumes "mat n n A" "mat n m B" "mat n n Q" "vec n mu" "vec m u" "mat n n Sig"
  shows "predict A B Q mu u Sig =
    Inr (vec_add (mat_vec A mu) (mat_vec B u), mat_add (mat_mul (mat_mul A Sig) (T A)) Q)"
proof -
  have 1: "matvec A mu = Inr (mat_vec A mu)"
    using assms by (simp add: matvec_ok vec_def)
  have 2: "matvec B u = Inr (mat_vec B u)"
    using assms by (simp add: matvec_ok vec_def)
  have 3: "vadd (mat_vec A mu) (mat_vec B u) = Inr (vec_add (mat_vec A mu) (mat_vec B u))"
    using assms by (intro vadd_ok[where n=n]) (simp_all add: mat_vec_length)
  have 4: "matmul A Sig = Inr (mat_mul A Sig)"
    using assms by (simp add: matmul_ok)
  have 5: "matmul (mat_mul A Sig) (T A) = Inr (mat_mul (mat_mul A Sig) (T A))"
    using assms by (intro matmul_ok[where r=n and c=n and d=n] mat_mul_mat[where r=n and c=n and d=n] T_mat)
  have 6: "madd (mat_mul (mat_mul A Sig) (T A)) Q = Inr (mat_add (mat_mul (mat_mul A Sig) (T A)) Q)"
    using assms by (intro madd_ok[where r=n and c=n] mat_mul_mat[where r=n and c=n and d=n] T_mat)
  show ?thesis
    unfolding predict_def by (simp add: 1 2 3 4 5 6)
qed

theorem predict_computes_witness:
  "predict [[1, 0], [0, 1]] [[1, 0], [0, 1]] [[3/10, 0], [0, 3/10]] [0, 0] [1, 1]
     [[1/10, 0], [0, 1/10]] = Inr ([1, 1], [[2/5, 0], [0, 2/5]])"
  using predict_computes[of 2 "[[1, 0], [0, 1]]" 2 "[[1, 0], [0, 1]]" "[[3/10, 0], [0, 3/10]]"
      "[0, 0]" "[1, 1]" "[[1/10, 0], [0, 1/10]]"]
  by (simp add: mat22I vec_def mat_vec22 mat_mul22 T22 mat_add22 vec_add_def)

text \<open>
  Claim C1. For a belief \<open>(mu, Sig)\<close> and a measurement \<open>z\<close> of the configured
  dimensions (state dimension \<open>n\<close>, measurement dimension \<open>k\<close>) whose residual
  covariance \<open>H Sig H\<^sup>T + R\<close> has an inverse, \<open>update\<close> obtains that inverse \<open>Si\<close> from
  \<open>np.linalg.inv\<close> and returns the mean \<open>mu + K (z - H mu)\<close> and the covariance
  \<open>Sig - K H Sig\<close> with the gain \<open>K = Sig H\<^sup>T Si\<close>.
\<close>

theorem update_computes:
  assumes "mat k n H" "mat k k R" "vec k z" "vec n mu" "mat n n Sig"
    and "inv_contract k np_inv"
    and "invertible k (residual_covariance H R Sig)"
  shows "\<exists>Si. np_inv (residual_covariance H R Sig) = Inr Si \<and>
      inverse_of k (residual_covariance H R Sig) Si \<and>
      update np_inv H R z mu Sig =
        Inr (vec_add mu (mat_vec (kalman_gain H Sig Si) (residual_mean H z mu)),
             mat_sub Sig (mat_mul (mat_mul (kalman_gain H Sig Si) H) Sig))"
proof -
  have S: "mat k k (residual_covariance H R Sig)"
    by (rule residual_covariance_mat[OF assms(1,2,5)])
  obtain Si where Si: "np_inv (residual_covariance H R Sig) = Inr Si"
      "inverse_of k (residual_covariance H R Sig) Si"
    using contract_inverse[OF assms(6) S assms(7)] by blast
  have "mat k k Si" using Si(2) by (simp add: inverse_of_def)
  from update_success[where np_inv=np_inv, OF assms(1-5) Si(1) this] Si show ?thesis by blast
qed

theorem update_computes_witness:
  "update inv2 [[1, 0], [0, 1]] [[3/4, 0], [0, 3/5]] [6/5, 9/10] [1, 1] [[2/5, 0], [0, 2/5]] =
     Inr ([123/115, 24/25], [[6/23, 0], [0, 6/25]])"
proof -
  have H: "mat 2 2 [[1, 0], [0, 1]]" and R: "mat 2 2 [[3/4, 0], [0, 3/5]]"
    and S: "mat 2 2 [[2/5, 0], [0, 2/5]]"
    by (rule mat22I)+
  have z: "vec 2 [6/5, 9/10]" and mu: "vec 2 [1, 1]" by (simp_all add: vec_def)
  have i: "invertible 2 (residual_covariance [[1, 0], [0, 1]] [[3/4, 0], [0, 3/5]] [[2/5, 0], [0, 2/5]])"
    unfolding residual_covariance22 by (rule inv2_invertible) simp
  from update_computes[OF H R z mu S inv2_contract i]
  obtain Si where
    a: "inv2 (residual_covariance [[1, 0], [0, 1]] [[3/4, 0], [0, 3/5]] [[2/5, 0], [0, 2/5]]) = Inr Si"
    and u: "update inv2 [[1, 0], [0, 1]] [[3/4, 0], [0, 3/5]] [6/5, 9/10] [1, 1] [[2/5, 0], [0, 2/5]] =
        Inr (vec_add [1, 1] (mat_vec (kalman_gain [[1, 0], [0, 1]] [[2/5, 0], [0, 2/5]] Si)
               (residual_mean [[1, 0], [0, 1]] [6/5, 9/10] [1, 1])),
             mat_sub [[2/5, 0], [0, 2/5]]
               (mat_mul (mat_mul (kalman_gain [[1, 0], [0, 1]] [[2/5, 0], [0, 2/5]] Si)
                  [[1, 0], [0, 1]]) [[2/5, 0], [0, 2/5]]))"
    by blast
  have Si: "Si = [[20/23, 0], [0, 1]]"
    using a by (simp add: residual_covariance22 inv2_def)
  show ?thesis
    unfolding u Si
    by (simp add: kalman_gain_def residual_mean_def mat_mul22 T22 mat_vec22 mat_sub22
        vec_add_def vec_sub_def)
qed

text \<open>
  Claim C3, as the notebook has it. \<open>update\<close> has no check of the residual
  covariance and no condition of its own. When \<open>np.linalg.inv\<close> raises, that error
  (numpy's \<open>LinAlgError\<close>) reaches the caller and no belief is returned. When
  \<open>np.linalg.inv\<close> returns an array, \<open>update\<close> returns the belief computed from it,
  singular residual covariance or not; and \<open>np.linalg.inv\<close> does return on a singular
  matrix whose computed pivot is not exactly zero. First such an input: the
  residual covariance is exactly singular, its LU pivot rounds to \<open>2^-47\<close>, and
  \<open>update\<close> returns a belief.
\<close>

theorem update_singular_returns:
  "\<not> invertible 2 (residual_covariance [[1, 0], [0, 1]] [[0, 0], [0, 0]] [[1, 49], [49, 2401]]) \<and>
   \<not> isl (update inv2_lu [[1, 0], [0, 1]] [[0, 0], [0, 0]] [0, 1] [0, 0] [[1, 49], [49, 2401]])"
proof
  show "\<not> invertible 2 (residual_covariance [[1, 0], [0, 1]] [[0, 0], [0, 0]] [[1, 49], [49, 2401]])"
    unfolding residual_covariance_id22 by (simp add: inv2_singular)
  have H: "mat 2 2 [[1, 0], [0, 1]]" and R: "mat 2 2 [[0, 0], [0, 0]]"
    and S: "mat 2 2 [[1, 49], [49, 2401]]"
    by (rule mat22I)+
  have z: "vec 2 [0, 1]" and mu: "vec 2 [0, 0]" by (simp_all add: vec_def)
  have i: "inv2_lu (residual_covariance [[1, 0], [0, 1]] [[0, 0], [0, 0]] [[1, 49], [49, 2401]]) =
      Inr [[- 6896136929411072, 14123288431433876377 / 100352],
           [140737488355328, - 5882252574524729 / 2048]]"
    unfolding residual_covariance_id22 using inv2_lu_returns by simp
  show "\<not> isl (update inv2_lu [[1, 0], [0, 1]] [[0, 0], [0, 0]] [0, 1] [0, 0] [[1, 49], [49, 2401]])"
    unfolding update_success[where np_inv=inv2_lu, OF H R z mu S i mat22I] by simp
qed

text \<open>
  Claim C3, the statement that holds: for operands of the configured dimensions,
  an error of \<open>np.linalg.inv\<close> becomes the result of \<open>update\<close>, and an array \<open>Si\<close>
  returned by \<open>np.linalg.inv\<close> is used as it is, giving the mean
  \<open>mu + K (z - H mu)\<close> and the covariance \<open>Sig - K H Sig\<close> with \<open>K = Sig H\<^sup>T Si\<close>.
\<close>

theorem update_without_guard:
  assumes "mat k n H" "mat k k R" "vec k z" "vec n mu" "mat n n Sig"
  shows "(\<forall>e. np_inv (residual_covariance H R Sig) = Inl e \<longrightarrow>
            update np_inv H R z mu Sig = Inl e) \<and>
         (\<forall>Si. np_inv (residual_covariance H R Sig) = Inr Si \<and> mat k k Si \<longrightarrow>
            update np_inv H R z mu Sig =
              Inr (vec_add mu (mat_vec (kalman_gain H Sig Si) (residual_mean H z mu)),
                   mat_sub Sig (mat_mul (mat_mul (kalman_gain H Sig Si) H) Sig)))"
proof (intro conjI allI impI)
  fix e assume "np_inv (residual_covariance H R Sig) = Inl e"
  then show "update np_inv H R z mu Sig = Inl e"
    by (rule update_failure[where np_inv=np_inv, OF assms])
next
  fix Si assume a: "np_inv (residual_covariance H R Sig) = Inr Si \<and> mat k k Si"
  show "update np_inv H R z mu Sig =
      Inr (vec_add mu (mat_vec (kalman_gain H Sig Si) (residual_mean H z mu)),
           mat_sub Sig (mat_mul (mat_mul (kalman_gain H Sig Si) H) Sig))"
    by (rule update_success[where np_inv=np_inv, OF assms conjunct1[OF a] conjunct2[OF a]])
qed

theorem update_without_guard_witness:
  "update inv2 [[1, 0], [0, 1]] [[0, 0], [0, 0]] [6/5, 9/10] [1, 1] [[0, 0], [0, 0]] =
     Inl LinAlgError \<and>
   (\<exists>Si. inv2_lu (residual_covariance [[1, 0], [0, 1]] [[0, 0], [0, 0]] [[1, 49], [49, 2401]]) =
           Inr Si \<and>
      update inv2_lu [[1, 0], [0, 1]] [[0, 0], [0, 0]] [0, 1] [0, 0] [[1, 49], [49, 2401]] =
        Inr (vec_add [0, 0] (mat_vec (kalman_gain [[1, 0], [0, 1]] [[1, 49], [49, 2401]] Si)
               (residual_mean [[1, 0], [0, 1]] [0, 1] [0, 0])),
             mat_sub [[1, 49], [49, 2401]]
               (mat_mul (mat_mul (kalman_gain [[1, 0], [0, 1]] [[1, 49], [49, 2401]] Si)
                  [[1, 0], [0, 1]]) [[1, 49], [49, 2401]])))"
proof
  have H: "mat 2 2 [[1, 0], [0, 1]]" and Z: "mat 2 2 [[0, 0], [0, 0]]"
    and S: "mat 2 2 [[1, 49], [49, 2401]]"
    by (rule mat22I)+
  have z1: "vec 2 [6/5, 9/10]" and m1: "vec 2 [1, 1]"
    and z2: "vec 2 [0, 1]" and m2: "vec 2 [0, 0]"
    by (simp_all add: vec_def)
  have r: "inv2 (residual_covariance [[1, 0], [0, 1]] [[0, 0], [0, 0]] [[0, 0], [0, 0]]) =
      Inl LinAlgError"
    unfolding residual_covariance_id22 by (simp add: inv2_def)
  from update_without_guard[where np_inv=inv2, OF H Z z1 m1 Z] r
  show "update inv2 [[1, 0], [0, 1]] [[0, 0], [0, 0]] [6/5, 9/10] [1, 1] [[0, 0], [0, 0]] =
     Inl LinAlgError"
    by blast
  have i: "inv2_lu (residual_covariance [[1, 0], [0, 1]] [[0, 0], [0, 0]] [[1, 49], [49, 2401]]) =
      Inr [[- 6896136929411072, 14123288431433876377 / 100352],
           [140737488355328, - 5882252574524729 / 2048]]"
    unfolding residual_covariance_id22 using inv2_lu_returns by simp
  have m: "mat 2 2 [[- 6896136929411072, 14123288431433876377 / 100352],
           [140737488355328, - 5882252574524729 / 2048 :: real]]"
    by (rule mat22I)
  from update_without_guard[where np_inv=inv2_lu, OF H Z z2 m2 S] i m
  show "\<exists>Si. inv2_lu (residual_covariance [[1, 0], [0, 1]] [[0, 0], [0, 0]] [[1, 49], [49, 2401]]) =
           Inr Si \<and>
      update inv2_lu [[1, 0], [0, 1]] [[0, 0], [0, 0]] [0, 1] [0, 0] [[1, 49], [49, 2401]] =
        Inr (vec_add [0, 0] (mat_vec (kalman_gain [[1, 0], [0, 1]] [[1, 49], [49, 2401]] Si)
               (residual_mean [[1, 0], [0, 1]] [0, 1] [0, 0])),
             mat_sub [[1, 49], [49, 2401]]
               (mat_mul (mat_mul (kalman_gain [[1, 0], [0, 1]] [[1, 49], [49, 2401]] Si)
                  [[1, 0], [0, 1]]) [[1, 49], [49, 2401]]))"
    by blast
qed

text \<open>
  Claim C8. When the predicted covariance \<open>Sig\<close> and the measurement-noise covariance
  \<open>R\<close> are positive semi-definite and the residual covariance is invertible, \<open>update\<close>
  returns a covariance that is below \<open>Sig\<close> in the Loewner order, and whose trace is
  at most the trace of \<open>Sig\<close>.
\<close>

theorem update_covariance_loewner:
  assumes "mat k n H" "psd k R" "vec k z" "vec n mu" "psd n Sig"
    and "inv_contract k np_inv"
    and "invertible k (residual_covariance H R Sig)"
  shows "\<exists>mu' Sig'. update np_inv H R z mu Sig = Inr (mu', Sig') \<and>
      loewner_le n Sig' Sig \<and> trace Sig' \<le> trace Sig"
proof -
  have S: "mat k k (residual_covariance H R Sig)"
    by (rule residual_covariance_mat[OF assms(1) psd_mat[OF assms(2)] psd_mat[OF assms(5)]])
  obtain Si where inv: "np_inv (residual_covariance H R Sig) = Inr Si"
    and Si: "inverse_of k (residual_covariance H R Sig) Si"
    using contract_inverse[OF assms(6) S assms(7)] by blast
  have Sim: "mat k k Si" using Si by (simp add: inverse_of_def)
  note u = update_success[where np_inv=np_inv, OF assms(1) psd_mat[OF assms(2)] assms(3,4)
      psd_mat[OF assms(5)] inv Sim]
  have "0 \<le> trace (mat_mul (mat_mul (kalman_gain H Sig Si) H) Sig)"
    by (rule psd_trace_nonneg[OF reduction_psd[OF assms(1,2,5) Si]])
  then have "trace (mat_sub Sig (mat_mul (mat_mul (kalman_gain H Sig Si) H) Sig)) \<le> trace Sig"
    by (simp add: update_trace[OF assms(1,2,5) Si])
  with u update_loewner[OF assms(1,2,5) Si] show ?thesis by blast
qed

theorem update_covariance_loewner_witness:
  "\<exists>mu' Sig'.
     update inv2 [[1, 0], [0, 1]] [[3/4, 0], [0, 3/5]] [6/5, 9/10] [1, 1] [[2/5, 0], [0, 2/5]] =
       Inr (mu', Sig') \<and>
     loewner_le 2 Sig' [[2/5, 0], [0, 2/5]] \<and> trace Sig' \<le> trace [[2/5, 0], [0, 2/5]]"
proof (rule update_covariance_loewner[where k=2 and n=2])
  show "mat 2 2 [[1, 0], [0, 1]]" by (rule mat22I)
  show "psd 2 [[3/4, 0], [0, 3/5]]" "psd 2 [[2/5, 0], [0, 2/5]]" by (rule psd_diag2; simp)+
  show "vec 2 [6/5, 9/10]" "vec 2 [1, 1]" by (simp_all add: vec_def)
  show "inv_contract 2 inv2" by (rule inv2_contract)
  show "invertible 2 (residual_covariance [[1, 0], [0, 1]] [[3/4, 0], [0, 3/5]] [[2/5, 0], [0, 2/5]])"
    unfolding residual_covariance22 by (rule inv2_invertible) simp
qed

text \<open>
  Claim C9. Let \<open>predict\<close> return \<open>(mu_p, Sig_p)\<close> from a belief with a positive
  semi-definite covariance, with positive semi-definite noise covariances \<open>Q\<close> and \<open>R\<close>
  and an invertible residual covariance. Then \<open>update\<close> with the measurement
  \<open>H mu_p\<close> returns the mean \<open>mu_p\<close> again, a covariance below \<open>Sig_p\<close> in the Loewner
  order and, unless the Kalman gain is the zero matrix, of strictly smaller trace.
\<close>

theorem predict_update_zero_residual:
  assumes "mat n n A" "mat n m B" "psd n Q" "vec n mu" "vec m u" "psd n Sig"
    and "mat k n H" "psd k R" "inv_contract k np_inv"
    and "predict A B Q mu u Sig = Inr (mu_p, Sig_p)"
    and "invertible k (residual_covariance H R Sig_p)"
  shows "\<exists>Si Sig'. np_inv (residual_covariance H R Sig_p) = Inr Si \<and>
      update np_inv H R (mat_vec H mu_p) mu_p Sig_p = Inr (mu_p, Sig') \<and>
      loewner_le n Sig' Sig_p \<and>
      (kalman_gain H Sig_p Si \<noteq> zero_mat n k \<longrightarrow> trace Sig' < trace Sig_p)"
proof -
  from predict_Inr[OF assms(10)]
  have mu_p: "mu_p = vec_add (mat_vec A mu) (mat_vec B u)"
    and Sig_p: "Sig_p = mat_add (mat_mul (mat_mul A Sig) (T A)) Q"
    by simp_all
  have lmu: "length mu_p = n"
    using assms(1,2) by (simp add: mu_p vec_add_length mat_vec_length)
  have P: "psd n Sig_p"
    unfolding Sig_p by (rule predicted_covariance_psd[OF assms(1,3,6)])
  have lz: "length (mat_vec H mu_p) = k" by (simp add: mat_vec_length[OF assms(7)])
  have S: "mat k k (residual_covariance H R Sig_p)"
    by (rule residual_covariance_mat[OF assms(7) psd_mat[OF assms(8)] psd_mat[OF P]])
  obtain Si where inv: "np_inv (residual_covariance H R Sig_p) = Inr Si"
    and Si: "inverse_of k (residual_covariance H R Sig_p) Si"
    using contract_inverse[OF assms(9) S assms(11)] by blast
  have Sim: "mat k k Si" using Si by (simp add: inverse_of_def)
  have vz: "vec k (mat_vec H mu_p)" and vm: "vec n mu_p"
    using lz lmu by (simp_all add: vec_def)
  note u = update_success[where np_inv=np_inv, OF assms(7) psd_mat[OF assms(8)] vz vm
      psd_mat[OF P] inv Sim]
  have "residual_mean H (mat_vec H mu_p) mu_p = replicate k 0"
    by (simp add: residual_mean_def vec_sub_self lz)
  then have "mat_vec (kalman_gain H Sig_p Si) (residual_mean H (mat_vec H mu_p) mu_p) = replicate n 0"
    by (simp add: mat_vec_zero[OF kalman_gain_mat[OF assms(7) psd_mat[OF P] Sim]])
  then have m: "vec_add mu_p (mat_vec (kalman_gain H Sig_p Si) (residual_mean H (mat_vec H mu_p) mu_p)) = mu_p"
    by (simp add: vec_add_zero[OF lmu])
  have strict: "trace (mat_sub Sig_p (mat_mul (mat_mul (kalman_gain H Sig_p Si) H) Sig_p)) < trace Sig_p"
    if "kalman_gain H Sig_p Si \<noteq> zero_mat n k"
    using reduction_trace_pos[OF assms(7,8) P Si that]
    by (simp add: update_trace[OF assms(7,8) P Si])
  show ?thesis
    using inv u m update_loewner[OF assms(7,8) P Si] strict by auto
qed

theorem predict_update_zero_residual_witness:
  "\<exists>Si Sig'. inv2 (residual_covariance [[1, 0], [0, 1]] [[3/4, 0], [0, 3/5]] [[2/5, 0], [0, 2/5]]) = Inr Si \<and>
      update inv2 [[1, 0], [0, 1]] [[3/4, 0], [0, 3/5]] (mat_vec [[1, 0], [0, 1]] [1, 1]) [1, 1]
        [[2/5, 0], [0, 2/5]] = Inr ([1, 1], Sig') \<and>
      loewner_le 2 Sig' [[2/5, 0], [0, 2/5]] \<and>
      kalman_gain [[1, 0], [0, 1]] [[2/5, 0], [0, 2/5]] Si \<noteq> zero_mat 2 2 \<and>
      trace Sig' < trace [[2/5, 0], [0, 2/5]]"
proof -
  have A: "mat 2 2 [[1, 0], [0, 1]]" by (rule mat22I)
  have Q: "psd 2 [[3/10, 0], [0, 3/10]]" and S0: "psd 2 [[1/10, 0], [0, 1/10]]"
    and R: "psd 2 [[3/4, 0], [0, 3/5]]"
    by (rule psd_diag2; simp)+
  have mu: "vec 2 [0, 0]" and u: "vec 2 [1, 1]" by (simp_all add: vec_def)
  have p: "predict [[1, 0], [0, 1]] [[1, 0], [0, 1]] [[3/10, 0], [0, 3/10]] [0, 0] [1, 1]
     [[1/10, 0], [0, 1/10]] = Inr ([1, 1], [[2/5, 0], [0, 2/5]])"
    by (simp add: predict_def matvec_def matmul_def madd_def vadd_def ncols_def
       mat_vec22 mat_mul22 T22 mat_add22 vec_add_def)
  have i: "invertible 2 (residual_covariance [[1, 0], [0, 1]] [[3/4, 0], [0, 3/5]] [[2/5, 0], [0, 2/5]])"
    unfolding residual_covariance22 by (rule inv2_invertible) simp
  from predict_update_zero_residual[OF A A Q mu u S0 A R inv2_contract p i]
  obtain Si Sig' where
    a: "inv2 (residual_covariance [[1, 0], [0, 1]] [[3/4, 0], [0, 3/5]] [[2/5, 0], [0, 2/5]]) = Inr Si"
    and b: "update inv2 [[1, 0], [0, 1]] [[3/4, 0], [0, 3/5]] (mat_vec [[1, 0], [0, 1]] [1, 1]) [1, 1]
        [[2/5, 0], [0, 2/5]] = Inr ([1, 1], Sig')"
    and c: "loewner_le 2 Sig' [[2/5, 0], [0, 2/5]]"
    and d: "kalman_gain [[1, 0], [0, 1]] [[2/5, 0], [0, 2/5]] Si \<noteq> zero_mat 2 2 \<longrightarrow>
         trace Sig' < trace [[2/5, 0], [0, 2/5]]"
    by blast
  have "Si = [[20/23, 0], [0, 1]]"
    using a by (simp add: residual_covariance22 inv2_def)
  then have g: "kalman_gain [[1, 0], [0, 1]] [[2/5, 0], [0, 2/5]] Si \<noteq> zero_mat 2 2"
    by (simp add: kalman_gain_def mat_mul22 T22 zero_mat_def numeral_2_eq_2)
  from mp[OF d g] have "trace Sig' < trace [[2/5, 0], [0, 2/5]]" .
  with a b c g show ?thesis by blast
qed

section \<open>Claims about the particle filter\<close>

text \<open>
  Claim C10. For a particle of the store, \<open>Particle.predict\<close> replaces its state by
  \<open>state + u_t + noise\<close> and leaves its weight, and every other particle, as they
  were; \<open>Particle.update\<close> replaces its weight and leaves its state, and every other
  particle, as they were.
\<close>

theorem particle_methods_frame:
  assumes "self < length h"
  shows "(\<forall>h'. Particle_predict h self u_t noise = Inr h' \<longrightarrow>
            length h' = length h \<and>
            weight (h' ! self) = weight (h ! self) \<and>
            state (h' ! self) = vec_add (vec_add (state (h ! self)) u_t) noise \<and>
            (\<forall>p. p \<noteq> self \<longrightarrow> h' ! p = h ! p)) \<and>
         (\<forall>h'. Particle_update h self z_t = Inr h' \<longrightarrow>
            length h' = length h \<and>
            state (h' ! self) = state (h ! self) \<and>
            weight (h' ! self) = fdiv (Fin 1) (Fin (norm2 (vec_sub (state (h ! self)) z_t))) \<and>
            (\<forall>p. p \<noteq> self \<longrightarrow> h' ! p = h ! p))"
proof (intro conjI allI impI)
  fix h' assume "Particle_predict h self u_t noise = Inr h'"
  note e = Particle_predict_Inr[OF this]
  show "length h' = length h" by (simp add: e)
  show "weight (h' ! self) = weight (h ! self)" using assms by (simp add: e)
  show "state (h' ! self) = vec_add (vec_add (state (h ! self)) u_t) noise"
    using assms by (simp add: e)
  show "h' ! p = h ! p" if "p \<noteq> self" for p using that by (simp add: e)
next
  fix h' assume "Particle_update h self z_t = Inr h'"
  note e = Particle_update_Inr[OF this]
  show "length h' = length h" by (simp add: e)
  show "state (h' ! self) = state (h ! self)" using assms by (simp add: e)
  show "weight (h' ! self) = fdiv (Fin 1) (Fin (norm2 (vec_sub (state (h ! self)) z_t)))"
    using assms by (simp add: e del: fdiv.simps)
  show "h' ! p = h ! p" if "p \<noteq> self" for p using that by (simp add: e)
qed

theorem particle_methods_frame_witness:
  "(0::nat) < length [Particle 4 6 (Fin 1), Particle 0 0 (Fin 2)] \<and>
   Particle_predict [Particle 4 6 (Fin 1), Particle 0 0 (Fin 2)] 0 [1, 2] [1/100, 0] =
     Inr [\<lparr>state = [501/100, 8], weight = Fin 1\<rparr>, Particle 0 0 (Fin 2)] \<and>
   weight ([\<lparr>state = [501/100, 8], weight = Fin 1\<rparr>, Particle 0 0 (Fin 2)] ! 0) =
     weight ([Particle 4 6 (Fin 1), Particle 0 0 (Fin 2)] ! 0) \<and>
   Particle_update [Particle 4 6 (Fin 1), Particle 0 0 (Fin 2)] 0 [1, 2] =
     Inr [\<lparr>state = [4, 6], weight = Fin (1/5)\<rparr>, Particle 0 0 (Fin 2)] \<and>
   state ([\<lparr>state = [4, 6], weight = Fin (1/5)\<rparr>, Particle 0 0 (Fin 2)] ! 0) =
     state ([Particle 4 6 (Fin 1), Particle 0 0 (Fin 2)] ! 0)"
  using particle_methods_frame[of 0 "[Particle 4 6 (Fin 1), Particle 0 0 (Fin 2)]" "[1, 2]"
      "[1/100, 0]" "[1, 2]"] predict_example update_example
  by simp

text \<open>
  Claim C5, as the notebook has it. \<open>Particle.update\<close> sets the weight to
  \<open>1 / ||state - z_t||\<close> when the state differs from \<open>z_t\<close>. When the state equals
  \<open>z_t\<close> the division by the zero distance is carried out and the weight becomes
  \<open>+inf\<close>: the method has no special case and no floor. First the input at which
  the claim of a finite weight fails, then the statement that holds.
\<close>

theorem particle_update_at_measurement:
  "Particle_update [Particle 1 2 (Fin 1)] 0 [1, 2] = Inr [\<lparr>state = [1, 2], weight = PInf\<rparr>]"
  by (simp add: Particle_update_def Particle_def vsub_def vec_sub_def norm2_def)

theorem particle_update_weight:
  assumes "self < length h" "length (state (h ! self)) = length z_t"
  shows "\<exists>h'. Particle_update h self z_t = Inr h' \<and>
      weight (h' ! self) =
        (if state (h ! self) = z_t then PInf
         else Fin (1 / norm2 (vec_sub (state (h ! self)) z_t)))"
  using assms by (simp add: Particle_update_ok)

theorem particle_update_weight_witness:
  "\<exists>h'. Particle_update [Particle 4 6 (Fin 1)] 0 [1, 2] = Inr h' \<and> weight (h' ! 0) = Fin (1/5)"
  using particle_update_weight[of 0 "[Particle 4 6 (Fin 1)]" "[1, 2]"]
  by (simp add: Particle_def vec_sub_def norm2_def sqrt25)

text \<open>
  Claim C4, as the notebook has it. The resampling step has no check of the sum of
  the weights. When the sum is zero or not finite, the division is carried out all
  the same, the normalised weights (NaN or infinite entries among them) are handed
  to \<open>np.random.choice\<close>, and the step ends with the \<open>ValueError\<close> that the draw
  raises for them. When the sum is finite and not zero, every weight \<open>w_i\<close> is
  normalised to \<open>w_i / sum\<close>. First the input with all weights zero, then the
  statement that holds.
\<close>

theorem resample_all_zero_weights:
  "normalize_weights (weights_of [Particle 0 0 (Fin 0), Particle 1 1 (Fin 0)] [0, 1]) = [NaN, NaN] \<and>
   np_choice 2 2 [NaN, NaN] [1, 0] = Inl ValueError \<and>
   resample 2 (9/10) [1, 0] (\<lambda>j. (5, 5)) [Particle 0 0 (Fin 0), Particle 1 1 (Fin 0)] [0, 1] =
     Inl ValueError"
  by (simp add: resample_eval)

theorem resample_normalization:
  "(np_sum (weights_of h particles) = Fin 0 \<or> \<not> is_finite (np_sum (weights_of h particles)) \<longrightarrow>
      np_choice M M (normalize_weights (weights_of h particles)) draws = Inl ValueError \<and>
      resample M alpha draws fresh h particles = Inl ValueError) \<and>
   (\<forall>s. np_sum (weights_of h particles) = Fin s \<and> s \<noteq> 0 \<longrightarrow>
      (\<forall>i<length particles. \<exists>a. weight (h ! (particles ! i)) = Fin a \<and>
         normalize_weights (weights_of h particles) ! i = Fin (a / s)))"
proof (intro conjI allI impI)
  assume d: "np_sum (weights_of h particles) = Fin 0 \<or> \<not> is_finite (np_sum (weights_of h particles))"
  show "np_choice M M (normalize_weights (weights_of h particles)) draws = Inl ValueError"
    using resample_degenerate[OF d] by blast
  show "resample M alpha draws fresh h particles = Inl ValueError"
    using resample_degenerate[OF d] by blast
next
  fix s i assume s: "np_sum (weights_of h particles) = Fin s \<and> s \<noteq> 0" and i: "i < length particles"
  have "i < length (weights_of h particles)" using i by (simp add: weights_of_def)
  from normalize_nth[OF conjunct1[OF s] conjunct2[OF s] this]
  show "\<exists>a. weight (h ! (particles ! i)) = Fin a \<and>
      normalize_weights (weights_of h particles) ! i = Fin (a / s)"
    using i by (simp add: weights_of_nth)
qed

theorem resample_normalization_witness:
  "np_sum (weights_of [Particle 0 0 (Fin 0), Particle 1 1 (Fin 0)] [0, 1]) = Fin 0 \<and>
   resample 2 (9/10) [1, 0] (\<lambda>j. (5, 5)) [Particle 0 0 (Fin 0), Particle 1 1 (Fin 0)] [0, 1] =
     Inl ValueError \<and>
   np_sum (weights_of [Particle 0 0 (Fin 1), Particle 1 1 (Fin 3)] [0, 1]) = Fin 4 \<and>
   (\<exists>a. weight ([Particle 0 0 (Fin 1), Particle 1 1 (Fin 3)] ! ([0, 1] ! 1)) = Fin a \<and>
        normalize_weights (weights_of [Particle 0 0 (Fin 1), Particle 1 1 (Fin 3)] [0, 1]) ! 1 =
          Fin (a / 4))"
proof -
  have z: "np_sum (weights_of [Particle 0 0 (Fin 0), Particle 1 1 (Fin 0)] [0, 1]) = Fin 0"
    by (simp add: weights_of_def Particle_def)
  have f: "np_sum (weights_of [Particle 0 0 (Fin 1), Particle 1 1 (Fin 3)] [0, 1]) = Fin 4"
    by (simp add: weights_of_def Particle_def)
  note a = resample_normalization[of "[Particle 0 0 (Fin 0), Particle 1 1 (Fin 0)]" "[0, 1]" 2
      "[1, 0]" "9/10" "\<lambda>j. (5, 5)"]
  note b = resample_normalization[of "[Particle 0 0 (Fin 1), Particle 1 1 (Fin 3)]" "[0, 1]" 2
      "[1, 0]" "9/10" "\<lambda>j. (5, 5)"]
  have 1: "resample 2 (9/10) [1, 0] (\<lambda>j. (5, 5)) [Particle 0 0 (Fin 0), Particle 1 1 (Fin 0)] [0, 1] =
     Inl ValueError"
    using a z by blast
  have 2: "\<exists>a. weight ([Particle 0 0 (Fin 1), Particle 1 1 (Fin 3)] ! ([0, 1] ! 1)) = Fin a \<and>
        normalize_weights (weights_of [Particle 0 0 (Fin 1), Particle 1 1 (Fin 3)] [0, 1]) ! 1 =
          Fin (a / 4)"
    using conjunct2[OF b, rule_format, of 4 1] f by simp
  from z 1 f 2 show ?thesis by blast
qed

text \<open>
  Claim C6. When the draw accepts the normalised weights and the fraction \<open>alpha\<close>
  lies between 0 and 1, the resampling step leaves \<open>particles\<close> with \<open>M\<close> slots again.
  With \<open>K = floor(alpha * M)\<close>, each slot \<open>j < K\<close> holds a particle of the old
  generation, read through the drawn index \<open>draws ! j\<close> from the list as it is at
  iteration \<open>j\<close>; each slot \<open>K \<le> j < M\<close> holds a particle created in this step,
  whose state is the freshly sampled position \<open>[x, y]\<close> and whose weight is zero. No
  particle of the old store is changed.
\<close>

theorem resample_preserves_count:
  assumes len: "length particles = M" and a0: "0 \<le> alpha" and a1: "alpha \<le> 1"
    and dr: "valid_draws M M draws"
    and ch: "np_choice M M (normalize_weights (weights_of h particles)) draws = Inr draws"
  shows "\<exists>h' ps'. resample M alpha draws fresh h particles = Inr (h', ps') \<and>
     length ps' = M \<and>
     (\<forall>j<nat \<lfloor>real M * alpha\<rfloor>. ps' ! j \<in> set particles \<and>
        ps' ! j = (if draws ! j < j then ps' ! (draws ! j) else particles ! (draws ! j))) \<and>
     (\<forall>j. nat \<lfloor>real M * alpha\<rfloor> \<le> j \<and> j < M \<longrightarrow>
        ps' ! j = length h + (j - nat \<lfloor>real M * alpha\<rfloor>) \<and>
        h' ! (ps' ! j) = Particle (fst (fresh (j - nat \<lfloor>real M * alpha\<rfloor>)))
                            (snd (fresh (j - nat \<lfloor>real M * alpha\<rfloor>))) (Fin 0) \<and>
        state (h' ! (ps' ! j)) = [fst (fresh (j - nat \<lfloor>real M * alpha\<rfloor>)),
                                  snd (fresh (j - nat \<lfloor>real M * alpha\<rfloor>))] \<and>
        weight (h' ! (ps' ! j)) = Fin 0) \<and>
     length h' = length h + (M - nat \<lfloor>real M * alpha\<rfloor>) \<and>
     (\<forall>p<length h. h' ! p = h ! p)"
proof -
  define K where "K = nat \<lfloor>real M * alpha\<rfloor>"
  have KM: "K \<le> M" unfolding K_def by (rule kept_le[OF a0 a1])
  have pi: "py_int (real M * alpha) = int K"
    unfolding K_def using a0 by (intro py_int_nonneg) simp
  have r1: "py_range (int K) = [0..<K]" by (simp add: py_range_def)
  have r2: "py_range (int M - int K) = [0..<M - K]"
    using KM by (simp add: py_range_def nat_diff_distrib')
  have dl: "length draws = M" and dv: "\<forall>j<M. draws ! j < M"
    using dr by (simp_all add: valid_draws_def list_all_length)
  obtain ps1 where k: "keep_loop [0..<K] draws particles = Inr ps1"
    and l1: "length ps1 = length particles" and s1: "set ps1 \<subseteq> set particles"
    and u1: "\<forall>j. j < 0 \<or> K \<le> j \<longrightarrow> ps1 ! j = particles ! j"
    and c1: "\<forall>j. 0 \<le> j \<and> j < K \<longrightarrow>
         ps1 ! j = (if draws ! j < j then ps1 ! (draws ! j) else particles ! (draws ! j))"
  proof -
    have p1: "K \<le> length draws" using KM dl by simp
    have p2: "\<forall>j<K. draws ! j < length particles" using KM dv len by simp
    have p3: "K \<le> length particles" using KM len by simp
    have p4: "0 \<le> K" by simp
    from keep_loop_upt[OF p1 p2 p3 p4] show ?thesis using that by blast
  qed
  let ?mk = "\<lambda>j. Particle (fst (fresh j)) (snd (fresh j)) (Fin 0)"
  obtain ps' where i: "inject_loop [0..<M - K] (int K) fresh h ps1 =
        Inr (h @ map ?mk [0..<M - K], ps')"
    and l2: "length ps' = length ps1"
    and u2: "\<forall>i. i < K + 0 \<or> K + (M - K) \<le> i \<longrightarrow> ps' ! i = ps1 ! i"
    and c2: "\<forall>j. 0 \<le> j \<and> j < M - K \<longrightarrow> ps' ! (K + j) = length h + (j - 0)"
  proof -
    have p1: "K + (M - K) \<le> length ps1" using KM l1 len by simp
    have p2: "0 \<le> M - K" by simp
    from inject_loop_upt[OF p1 p2, of fresh h] show ?thesis using that by blast
  qed
  let ?h' = "h @ map ?mk [0..<M - K]"
  have res: "resample M alpha draws fresh h particles = Inr (?h', ps')"
    by (simp add: resample_def Let_def ch pi r1 r2 k i)
  have kept: "ps' ! j \<in> set particles \<and>
        ps' ! j = (if draws ! j < j then ps' ! (draws ! j) else particles ! (draws ! j))"
    if j: "j < K" for j
  proof -
    have e: "ps' ! j = ps1 ! j" using u2 j by simp
    have "ps1 ! j \<in> set ps1" using j KM l1 len by (intro nth_mem) simp
    with s1 have m: "ps1 ! j \<in> set particles" by blast
    have "ps1 ! j = (if draws ! j < j then ps1 ! (draws ! j) else particles ! (draws ! j))"
      using c1 j by simp
    moreover have "ps1 ! (draws ! j) = ps' ! (draws ! j)" if "draws ! j < j"
      using u2 that j by simp
    ultimately show ?thesis using e m by simp
  qed
  have injected: "ps' ! j = length h + (j - K) \<and> ?h' ! (ps' ! j) = ?mk (j - K)"
    if j: "K \<le> j \<and> j < M" for j
  proof -
    have "j - K < M - K" using j by arith
    then have "ps' ! (K + (j - K)) = length h + ((j - K) - 0)"
      using c2 by blast
    then have e: "ps' ! j = length h + (j - K)" using j by simp
    have "?h' ! (length h + (j - K)) = map ?mk [0..<M - K] ! (j - K)"
      by (simp add: nth_append)
    also have "\<dots> = ?mk (j - K)"
    proof -
      have "j - K < M - K" using j by arith
      then show ?thesis by simp
    qed
    finally show ?thesis using e by simp
  qed
  have old: "?h' ! p = h ! p" if "p < length h" for p
    using that by (simp add: nth_append)
  have lh: "length ?h' = length h + (M - K)" by simp
  have lp: "length ps' = M" using l2 l1 len by simp
  show ?thesis
    unfolding K_def[symmetric]
  proof (intro exI[of _ ?h'] exI[of _ ps'] conjI allI impI)
    show "resample M alpha draws fresh h particles = Inr (?h', ps')" by (rule res)
    show "length ps' = M" by (rule lp)
    show "length ?h' = length h + (M - K)" by (rule lh)
    show "ps' ! j \<in> set particles" if "j < K" for j using kept[OF that] by blast
    show "ps' ! j = (if draws ! j < j then ps' ! (draws ! j) else particles ! (draws ! j))"
      if "j < K" for j using kept[OF that] by blast
    show "ps' ! j = length h + (j - K)" if "K \<le> j \<and> j < M" for j
      using injected[OF that] by blast
    show "?h' ! (ps' ! j) = ?mk (j - K)" if "K \<le> j \<and> j < M" for j
      using injected[OF that] by blast
    show "state (?h' ! (ps' ! j)) = [fst (fresh (j - K)), snd (fresh (j - K))]"
      if "K \<le> j \<and> j < M" for j
      unfolding conjunct2[OF injected[OF that]] by (simp add: Particle_def)
    show "weight (?h' ! (ps' ! j)) = Fin 0" if "K \<le> j \<and> j < M" for j
      unfolding conjunct2[OF injected[OF that]] by (simp add: Particle_def)
    show "?h' ! p = h ! p" if "p < length h" for p by (rule old[OF that])
  qed
qed

theorem resample_preserves_count_witness:
  "\<exists>h' ps'. resample 3 (9/10) [1, 0, 2] (\<lambda>j. (5, 5))
       [Particle 0 0 (Fin 1), Particle 1 1 (Fin 1), Particle 2 2 (Fin 1)] [0, 1, 2] = Inr (h', ps') \<and>
     length ps' = 3 \<and> ps' ! 0 \<in> set [0, 1, 2] \<and> ps' ! 1 \<in> set [0, 1, 2] \<and>
     ps' ! 2 = 3 \<and> h' ! (ps' ! 2) = Particle 5 5 (Fin 0) \<and>
     state (h' ! (ps' ! 2)) = [5, 5] \<and> weight (h' ! (ps' ! 2)) = Fin 0 \<and> length h' = 4"
proof -
  have h1: "length [0::nat, 1, 2] = 3" by simp
  have h2: "(0::real) \<le> 9/10" and h3: "(9/10::real) \<le> 1" by simp_all
  have h4: "valid_draws 3 3 [1, 0, 2]" by (simp add: valid_draws_def)
  have h5: "np_choice 3 3 (normalize_weights (weights_of
      [Particle 0 0 (Fin 1), Particle 1 1 (Fin 1), Particle 2 2 (Fin 1)] [0, 1, 2])) [1, 0, 2] =
      Inr [1, 0, 2]"
    by (simp add: resample_eval)
  have K: "nat \<lfloor>real 3 * (9/10)\<rfloor> = 2" by simp
  from resample_preserves_count[OF h1 h2 h3 h4 h5, of "\<lambda>j. (5, 5)", unfolded K]
  obtain h' ps' where r: "resample 3 (9/10) [1, 0, 2] (\<lambda>j. (5, 5))
       [Particle 0 0 (Fin 1), Particle 1 1 (Fin 1), Particle 2 2 (Fin 1)] [0, 1, 2] = Inr (h', ps')"
    and l: "length ps' = 3"
    and k: "\<forall>j<2. ps' ! j \<in> set [0, 1, 2] \<and>
        ps' ! j = (if [1, 0, 2] ! j < j then ps' ! ([1, 0, 2] ! j) else [0, 1, 2] ! ([1, 0, 2] ! j))"
    and i: "\<forall>j. 2 \<le> j \<and> j < 3 \<longrightarrow>
        ps' ! j = length [Particle 0 0 (Fin 1), Particle 1 1 (Fin 1), Particle 2 2 (Fin 1)] + (j - 2) \<and>
        h' ! (ps' ! j) = Particle (fst (5::real, 5::real)) (snd (5::real, 5::real)) (Fin 0) \<and>
        state (h' ! (ps' ! j)) = [fst (5::real, 5::real), snd (5::real, 5::real)] \<and>
        weight (h' ! (ps' ! j)) = Fin 0"
    and lh: "length h' = length [Particle 0 0 (Fin 1), Particle 1 1 (Fin 1), Particle 2 2 (Fin 1)] + (3 - 2)"
    by blast
  have lt0: "(0::nat) < 2" and lt1: "(1::nat) < 2" by simp_all
  have k0: "ps' ! 0 \<in> set [0, 1, 2]" by (rule conjunct1[OF k[rule_format, OF lt0]])
  have k1: "ps' ! 1 \<in> set [0, 1, 2]" by (rule conjunct1[OF k[rule_format, OF lt1]])
  have "ps' ! 2 = length [Particle 0 0 (Fin 1), Particle 1 1 (Fin 1), Particle 2 2 (Fin 1)] + (2 - 2) \<and>
        h' ! (ps' ! 2) = Particle (fst (5::real, 5::real)) (snd (5::real, 5::real)) (Fin 0) \<and>
        state (h' ! (ps' ! 2)) = [fst (5::real, 5::real), snd (5::real, 5::real)] \<and>
        weight (h' ! (ps' ! 2)) = Fin 0"
    by (rule i[rule_format]) simp
  then have i2: "ps' ! 2 = 3 \<and> h' ! (ps' ! 2) = Particle 5 5 (Fin 0) \<and>
      state (h' ! (ps' ! 2)) = [5, 5] \<and> weight (h' ! (ps' ! 2)) = Fin 0"
    by (elim conjE, intro conjI) simp_all
  have "length h' = 4" using lh by simp
  with r l k0 k1 i2 show ?thesis by blast
qed

text \<open>
  Claim C7 fails on the notebook. The first loop writes into the list it reads from
  and stores references, not copies. With the drawn indexes \<open>[1, 0, 2]\<close>, slot 0
  receives the particle of slot 1, and slot 1 then reads slot 0 after it has been
  overwritten: both slots end up holding the one object at address 1, and the old
  particle at the drawn index 0 is lost.
\<close>

theorem resample_reads_overwritten_slot:
  "resample 3 (9/10) [1, 0, 2] (\<lambda>j. (5, 5))
     [Particle 0 0 (Fin 1), Particle 1 1 (Fin 1), Particle 2 2 (Fin 1)] [0, 1, 2] =
   Inr ([Particle 0 0 (Fin 1), Particle 1 1 (Fin 1), Particle 2 2 (Fin 1), Particle 5 5 (Fin 0)],
        [1, 1, 3])"
  by (simp add: resample_eval)

end
